theory Spec2Isabelle
  imports Main "HOL-Library.AList" "HOL-Library.Sublist"
begin

section \<open>The rule evaluation engine of the rule-based profiler\<close>

text \<open>
  A shallow embedding of \<^verbatim>\<open>great_expectations/rule_based_profiler/rule/rule.py\<close>.

  Python objects that the code shares and mutates (the dict \<^verbatim>\<open>self._parameters\<close> and the
  \<^verbatim>\<open>ParameterContainer\<close> instances stored in it) live in an explicit store and are named
  by their address; everything else is a value. Exceptions are values of a sum type.
  The three builder capabilities are parameters of the model.
\<close>

subsection \<open>Data\<close>

type_synonym addr = nat

text \<open>
  Modelled from the spec: the class \<^verbatim>\<open>ParameterContainer\<close> is imported by the source and
  not part of it. It holds a tree of named parameter values; the source constructs it with
  \<^verbatim>\<open>parameter_nodes=None\<close>. The nodes below a container belong to that container alone, so a
  container object is one cell of the store and \<open>'n\<close> is the type of a node.
\<close>

datatype 'n ParameterContainer =
  ParameterContainer (parameter_nodes: "(string \<times> 'n) list option")

text \<open>
  Modelled from the spec: the class \<^verbatim>\<open>Domain\<close> is imported by the source and not part of it.
  The source reads only \<^verbatim>\<open>domain.id\<close>.
\<close>

record Domain =
  domain_type :: string
  domain_kwargs :: "(string \<times> string) list"
  domain_id :: string

text \<open>
  Modelled from the spec: \<^verbatim>\<open>ExpectationConfiguration\<close> is imported by the source;
  an assertion type with keyword arguments.
\<close>

record 'n ExpectationConfiguration =
  expectation_type :: string
  kwargs :: "(string \<times> 'n) list"

text \<open>The \<^verbatim>\<open>variables\<close> argument is an \<^verbatim>\<open>Optional[ParameterContainer]\<close>.\<close>

type_synonym 'n variables = "'n ParameterContainer option"

text \<open>
  Modelled from the spec: \<^verbatim>\<open>RuleBasedProfiler\<close> is not part of the source, which reads only
  its \<^verbatim>\<open>variables\<close>.
\<close>

record 'n RuleBasedProfiler =
  variables :: "'n variables"

datatype error =
  AttributeError
  | TypeError
  | DomainDiscoveryError
  | ParameterComputationError
  | ExpectationConfigurationBuildError

text \<open>The value of a dict of containers: what a reader of the dict sees, in key order.\<close>

type_synonym 'n parameters = "(string \<times> 'n ParameterContainer) list"

text \<open>
  Modelled from the spec: the builder classes are imported by the source and not part of
  it. Each is the function its one method computes, over the state \<open>'w\<close> of the backend it
  queries (spec, sections 4.1 to 4.3):
  \<^item> \<^verbatim>\<open>get_domains(variables)\<close> returns the domains or raises;
  \<^item> \<^verbatim>\<open>build_parameters(parameter_container, domain, variables, parameters)\<close> writes into
    the container it is handed, and only there: from the contents of the container when
    called it gives the contents when it returns or raises, and the error if it raises;
  \<^item> \<^verbatim>\<open>build_expectation_configuration(domain, variables, parameters)\<close> returns one
    configuration or raises.
  The \<^verbatim>\<open>parameters\<close> argument is a copy made for the call; a builder reads it, and what it
  might write there is lost with the copy.
\<close>

type_synonym ('n, 'w) DomainBuilder =
  "'n variables \<Rightarrow> 'w \<Rightarrow> (error + Domain list) \<times> 'w"

type_synonym ('n, 'w) ParameterBuilder =
  "'n ParameterContainer \<Rightarrow> Domain \<Rightarrow> 'n variables \<Rightarrow> 'n parameters \<Rightarrow> 'w
     \<Rightarrow> 'n ParameterContainer \<times> error option \<times> 'w"

type_synonym ('n, 'w) ExpectationConfigurationBuilder =
  "Domain \<Rightarrow> 'n variables \<Rightarrow> 'n parameters \<Rightarrow> 'w
     \<Rightarrow> (error + 'n ExpectationConfiguration) \<times> 'w"

text \<open>
  The calls \<^verbatim>\<open>generate\<close> makes, with the arguments it passes: the position of the builder in
  its list, the contents of the container when \<^verbatim>\<open>build_parameters\<close> is entered and when it is
  left, the domain, the variables and the value of the \<^verbatim>\<open>parameters\<close> copy.
  \<open>NewParameterContainer\<close> is the construction of a container and its registration under
  the domain's id (lines 62 to 65).
\<close>

datatype 'n call =
  GetDomains "'n variables"
  | NewParameterContainer Domain
  | BuildParameters nat "'n ParameterContainer" Domain "'n variables" "'n parameters"
      "'n ParameterContainer"
  | BuildExpectationConfiguration nat Domain "'n variables" "'n parameters"

text \<open>
  The state a call runs in: the store (dict objects and container objects by address, and
  the next free address), the state of the backend, and the record of the calls made so
  far, each with the error it raised, if any.
\<close>

record ('n, 'w) state =
  dicts :: "addr \<Rightarrow> (string \<times> addr) list"
  containers :: "addr \<Rightarrow> 'n ParameterContainer"
  next_addr :: addr
  backend :: 'w
  calls :: "('n call \<times> error option) list"

text \<open>
  The instance data of a \<^verbatim>\<open>Rule\<close>; \<open>self_x\<close> is the attribute \<^verbatim>\<open>self._x\<close>. The three builder
  attributes are \<^verbatim>\<open>None\<close> by default. \<open>self_parameters\<close> is the address of the dict.
\<close>

record ('n, 'w) Rule =
  self_rule_based_profiler :: "'n RuleBasedProfiler"
  self_name :: string
  self_domain_builder :: "('n, 'w) DomainBuilder option"
  self_parameter_builders :: "('n, 'w) ParameterBuilder list option"
  self_expectation_configuration_builders ::
    "('n, 'w) ExpectationConfigurationBuilder list option"
  self_parameters :: addr

subsection \<open>The store\<close>

definition new_dict ::
  "(string \<times> addr) list \<Rightarrow> ('n, 'w) state \<Rightarrow> addr \<times> ('n, 'w) state" where
  "new_dict items st =
     (next_addr st,
      st\<lparr>dicts := (dicts st)(next_addr st := items), next_addr := Suc (next_addr st)\<rparr>)"

definition new_container ::
  "'n ParameterContainer \<Rightarrow> ('n, 'w) state \<Rightarrow> addr \<times> ('n, 'w) state" where
  "new_container c st =
     (next_addr st,
      st\<lparr>containers := (containers st)(next_addr st := c),
         next_addr := Suc (next_addr st)\<rparr>)"

text \<open>\<^verbatim>\<open>d[k] = a\<close> on a Python dict: an existing key keeps its place, a new one goes last.\<close>

definition setitem :: "addr \<Rightarrow> string \<Rightarrow> addr \<Rightarrow> ('n, 'w) state \<Rightarrow> ('n, 'w) state" where
  "setitem x k a st = st\<lparr>dicts := (dicts st)(x := AList.update k a (dicts st x))\<rparr>"

definition view :: "('n, 'w) state \<Rightarrow> addr \<Rightarrow> 'n parameters" where
  "view st x = map (\<lambda>(k, a). (k, containers st a)) (dicts st x)"

text \<open>
  \<^verbatim>\<open>copy.deepcopy\<close> of a dict of containers: a new dict, and under each key a new container
  with the contents of the old one. (The memo table of \<^verbatim>\<open>deepcopy\<close> matters only when one
  container is stored under two keys, which \<^verbatim>\<open>generate\<close> never does: every container it
  registers is newly made.)
\<close>

fun deepcopy_items ::
  "(string \<times> addr) list \<Rightarrow> ('n, 'w) state \<Rightarrow> (string \<times> addr) list \<times> ('n, 'w) state" where
  "deepcopy_items [] st = ([], st)"
| "deepcopy_items ((k, a) # kvs) st =
     (let (a', st1) = new_container (containers st a) st;
          (rest, st2) = deepcopy_items kvs st1
      in ((k, a') # rest, st2))"

definition deepcopy :: "addr \<Rightarrow> ('n, 'w) state \<Rightarrow> addr \<times> ('n, 'w) state" where
  "deepcopy x st =
     (let (y, st1) = new_dict [] st;
          (items, st2) = deepcopy_items (dicts st1 x) st1
      in (y, st2\<lparr>dicts := (dicts st2)(y := items)\<rparr>))"

subsection \<open>The class \<^verbatim>\<open>Rule\<close>\<close>

text \<open>\<^verbatim>\<open>Rule.__init__\<close> (lines 17 to 41).\<close>

definition Rule_init ::
  "'n RuleBasedProfiler \<Rightarrow> string \<Rightarrow> ('n, 'w) DomainBuilder option
     \<Rightarrow> ('n, 'w) ParameterBuilder list option
     \<Rightarrow> ('n, 'w) ExpectationConfigurationBuilder list option
     \<Rightarrow> ('n, 'w) state \<Rightarrow> ('n, 'w) Rule \<times> ('n, 'w) state" where
  "Rule_init rule_based_profiler name domain_builder parameter_builders
       expectation_configuration_builders st =
     (let (x, st1) = new_dict [] st
      in (\<lparr>self_rule_based_profiler = rule_based_profiler,
            self_name = name,
            self_domain_builder = domain_builder,
            self_parameter_builders = parameter_builders,
            self_expectation_configuration_builders = expectation_configuration_builders,
            self_parameters = x\<rparr>, st1))"

text \<open>The property \<^verbatim>\<open>Rule.parameters\<close> (lines 114 to 117).\<close>

definition parameters :: "('n, 'w) Rule \<Rightarrow> ('n, 'w) state \<Rightarrow> addr \<times> ('n, 'w) state" where
  "parameters self st = deepcopy (self_parameters self) st"

definition record_call :: "'n call \<Rightarrow> error option \<Rightarrow> ('n, 'w) state \<Rightarrow> ('n, 'w) state" where
  "record_call c e st = st\<lparr>calls := calls st @ [(c, e)]\<rparr>"

text \<open>
  Lines 68 to 73: one call of \<^verbatim>\<open>build_parameters\<close>, by the builder at position \<open>i\<close>.
  \<open>pc\<close> is the address of \<^verbatim>\<open>parameter_container\<close>; the argument \<^verbatim>\<open>self.parameters\<close> is
  evaluated before the call.
\<close>

definition call_build_parameters ::
  "('n, 'w) Rule \<Rightarrow> addr \<Rightarrow> Domain \<Rightarrow> 'n variables \<Rightarrow> nat \<Rightarrow> ('n, 'w) ParameterBuilder
     \<Rightarrow> ('n, 'w) state \<Rightarrow> error option \<times> ('n, 'w) state" where
  "call_build_parameters self pc domain vs i parameter_builder st =
     (let (snapshot, st1) = parameters self st;
          ps = view st1 snapshot;
          c = containers st1 pc;
          (c', raised, w') = parameter_builder c domain vs ps (backend st1)
      in (raised,
          record_call (BuildParameters i c domain vs ps c') raised
            (st1\<lparr>containers := (containers st1)(pc := c'), backend := w'\<rparr>)))"

text \<open>The loop of lines 67 to 73 over the parameter builders, each with its position.\<close>

fun run_parameter_builders ::
  "('n, 'w) Rule \<Rightarrow> addr \<Rightarrow> Domain \<Rightarrow> 'n variables \<Rightarrow> (nat \<times> ('n, 'w) ParameterBuilder) list
     \<Rightarrow> ('n, 'w) state \<Rightarrow> error option \<times> ('n, 'w) state" where
  "run_parameter_builders self pc domain vs [] st = (None, st)"
| "run_parameter_builders self pc domain vs ((i, parameter_builder) # rest) st =
     (case call_build_parameters self pc domain vs i parameter_builder st of
        (Some e, st') \<Rightarrow> (Some e, st')
      | (None, st') \<Rightarrow> run_parameter_builders self pc domain vs rest st')"

text \<open>
  Lines 80 to 84: one call of \<^verbatim>\<open>build_expectation_configuration\<close>, by the builder at
  position \<open>j\<close>.
\<close>

definition call_build_expectation_configuration ::
  "('n, 'w) Rule \<Rightarrow> Domain \<Rightarrow> 'n variables \<Rightarrow> nat
     \<Rightarrow> ('n, 'w) ExpectationConfigurationBuilder
     \<Rightarrow> ('n, 'w) state \<Rightarrow> (error + 'n ExpectationConfiguration) \<times> ('n, 'w) state" where
  "call_build_expectation_configuration self domain vs j expectation_configuration_builder st =
     (let (snapshot, st1) = parameters self st;
          ps = view st1 snapshot;
          (res, w') = expectation_configuration_builder domain vs ps (backend st1)
      in (res,
          record_call (BuildExpectationConfiguration j domain vs ps)
            (case res of Inl e \<Rightarrow> Some e | Inr _ \<Rightarrow> None)
            (st1\<lparr>backend := w'\<rparr>)))"

text \<open>
  The loop of lines 76 to 85 over the expectation configuration builders;
  \<open>acc\<close> is the list \<^verbatim>\<open>expectation_configurations\<close>.
\<close>

fun run_expectation_configuration_builders ::
  "('n, 'w) Rule \<Rightarrow> Domain \<Rightarrow> 'n variables
     \<Rightarrow> (nat \<times> ('n, 'w) ExpectationConfigurationBuilder) list
     \<Rightarrow> 'n ExpectationConfiguration list
     \<Rightarrow> ('n, 'w) state \<Rightarrow> (error + 'n ExpectationConfiguration list) \<times> ('n, 'w) state" where
  "run_expectation_configuration_builders self domain vs [] acc st = (Inr acc, st)"
| "run_expectation_configuration_builders self domain vs
       ((j, expectation_configuration_builder) # rest) acc st =
     (case call_build_expectation_configuration self domain vs j
             expectation_configuration_builder st of
        (Inl e, st') \<Rightarrow> (Inl e, st')
      | (Inr cfg, st') \<Rightarrow>
          run_expectation_configuration_builders self domain vs rest (acc @ [cfg]) st')"

text \<open>
  Lines 62 to 65: a new container, registered in \<^verbatim>\<open>self._parameters\<close> under the id of the
  domain.
\<close>

definition new_parameter_container ::
  "('n, 'w) Rule \<Rightarrow> Domain \<Rightarrow> ('n, 'w) state \<Rightarrow> addr \<times> ('n, 'w) state" where
  "new_parameter_container self domain st =
     (let (pc, st1) = new_container (ParameterContainer None) st
      in (pc, record_call (NewParameterContainer domain) None
                (setitem (self_parameters self) (domain_id domain) pc st1)))"

text \<open>
  The body of the loop over the domains (lines 62 to 85). Iterating over an attribute
  that is \<^verbatim>\<open>None\<close> raises \<^verbatim>\<open>TypeError\<close>.
\<close>

definition generate_domain ::
  "('n, 'w) Rule \<Rightarrow> 'n variables \<Rightarrow> Domain \<Rightarrow> 'n ExpectationConfiguration list
     \<Rightarrow> ('n, 'w) state \<Rightarrow> (error + 'n ExpectationConfiguration list) \<times> ('n, 'w) state" where
  "generate_domain self vs domain acc st =
     (let (pc, st1) = new_parameter_container self domain st
      in case self_parameter_builders self of
           None \<Rightarrow> (Inl TypeError, st1)
         | Some pbs \<Rightarrow>
            (case run_parameter_builders self pc domain vs (enumerate 0 pbs) st1 of
               (Some e, st2) \<Rightarrow> (Inl e, st2)
             | (None, st2) \<Rightarrow>
                (case self_expectation_configuration_builders self of
                   None \<Rightarrow> (Inl TypeError, st2)
                 | Some ecbs \<Rightarrow>
                    run_expectation_configuration_builders self domain vs
                      (enumerate 0 ecbs) acc st2)))"

text \<open>The loop of lines 61 to 85 over the domains.\<close>

fun generate_domains ::
  "('n, 'w) Rule \<Rightarrow> 'n variables \<Rightarrow> Domain list \<Rightarrow> 'n ExpectationConfiguration list
     \<Rightarrow> ('n, 'w) state \<Rightarrow> (error + 'n ExpectationConfiguration list) \<times> ('n, 'w) state" where
  "generate_domains self vs [] acc st = (Inr acc, st)"
| "generate_domains self vs (domain # rest) acc st =
     (case generate_domain self vs domain acc st of
        (Inl e, st') \<Rightarrow> (Inl e, st')
      | (Inr acc', st') \<Rightarrow> generate_domains self vs rest acc' st')"

text \<open>Lines 53 and 54: the variables a call of \<^verbatim>\<open>generate\<close> works with.\<close>

definition resolve_variables :: "('n, 'w) Rule \<Rightarrow> 'n variables \<Rightarrow> 'n variables" where
  "resolve_variables self vars =
     (case vars of
        None \<Rightarrow> variables (self_rule_based_profiler self)
      | Some v \<Rightarrow> Some v)"

text \<open>
  \<^verbatim>\<open>Rule.generate\<close> (lines 43 to 87). Calling a method of an attribute that is \<^verbatim>\<open>None\<close>
  raises \<^verbatim>\<open>AttributeError\<close>.
\<close>

definition generate ::
  "('n, 'w) Rule \<Rightarrow> 'n variables \<Rightarrow> ('n, 'w) state
     \<Rightarrow> (error + 'n ExpectationConfiguration list) \<times> ('n, 'w) state" where
  "generate self vars st =
     (let vs = resolve_variables self vars
      in case self_domain_builder self of
           None \<Rightarrow> (Inl AttributeError, st)
         | Some domain_builder \<Rightarrow>
            (let (res, w') = domain_builder vs (backend st);
                 st1 = record_call (GetDomains vs)
                         (case res of Inl e \<Rightarrow> Some e | Inr _ \<Rightarrow> None)
                         (st\<lparr>backend := w'\<rparr>)
             in case res of
                  Inl e \<Rightarrow> (Inl e, st1)
                | Inr domains \<Rightarrow> generate_domains self vs domains [] st1))"

subsection \<open>The states a Rule can be in\<close>

text \<open>
  The dict of a Rule and the containers in it have been allocated, no container is stored
  under two keys, and no key occurs twice. \<open>Rule_init\<close> establishes this and \<open>generate\<close>,
  \<open>parameters\<close> and whatever a caller does to a copy it was handed keep it.
\<close>

definition wf :: "('n, 'w) Rule \<Rightarrow> ('n, 'w) state \<Rightarrow> bool" where
  "wf self st \<longleftrightarrow>
     self_parameters self < next_addr st \<and>
     list_all (\<lambda>a. a < next_addr st) (map snd (dicts st (self_parameters self))) \<and>
     distinct (map snd (dicts st (self_parameters self))) \<and>
     distinct (map fst (dicts st (self_parameters self)))"

subsection \<open>What a caller can do to a dict it was handed\<close>

text \<open>
  The caller of \<^verbatim>\<open>Rule.parameters\<close> holds the dict \<open>y\<close> that was returned:
  \<^verbatim>\<open>y[k] = ParameterContainer(...)\<close>, \<^verbatim>\<open>y[k] = y[k']\<close>, \<^verbatim>\<open>del y[k]\<close>,
  \<^verbatim>\<open>y[k].parameter_nodes = nodes\<close> and \<^verbatim>\<open>y.clear()\<close>. A statement that would raise
  \<^verbatim>\<open>KeyError\<close> changes nothing.
\<close>

datatype 'n mutation =
  SetItem string "'n ParameterContainer"
  | SetAlias string string
  | DelItem string
  | SetNodes string "(string \<times> 'n) list option"
  | Clear

fun mutate :: "addr \<Rightarrow> 'n mutation \<Rightarrow> ('n, 'w) state \<Rightarrow> ('n, 'w) state" where
  "mutate y (SetItem k c) st = (let (a, st1) = new_container c st in setitem y k a st1)"
| "mutate y (SetAlias k k') st =
     (case map_of (dicts st y) k' of None \<Rightarrow> st | Some a \<Rightarrow> setitem y k a st)"
| "mutate y (DelItem k) st = st\<lparr>dicts := (dicts st)(y := AList.delete k (dicts st y))\<rparr>"
| "mutate y (SetNodes k nodes) st =
     (case map_of (dicts st y) k of
        None \<Rightarrow> st
      | Some a \<Rightarrow> st\<lparr>containers := (containers st)(a := ParameterContainer nodes)\<rparr>)"
| "mutate y Clear st = st\<lparr>dicts := (dicts st)(y := [])\<rparr>"

definition isolated :: "addr \<Rightarrow> ('n, 'w) state \<Rightarrow> addr \<Rightarrow> ('n, 'w) state \<Rightarrow> bool" where
  "isolated n st0 y st \<longleftrightarrow>
     n \<le> y \<and> n \<le> next_addr st \<and>
     (\<forall>x<n. dicts st x = dicts st0 x) \<and>
     (\<forall>a<n. containers st a = containers st0 a) \<and>
     (\<forall>a \<in> snd ` set (dicts st y). n \<le> a)"

subsection \<open>Observing a call of \<^verbatim>\<open>generate\<close>\<close>

text \<open>
  The calls made between two states, oldest first, and the fact that the record of calls
  only grows.
\<close>

definition new_calls ::
  "('n, 'w) state \<Rightarrow> ('n, 'w) state \<Rightarrow> ('n call \<times> error option) list" where
  "new_calls st st' = drop (length (calls st)) (calls st')"

definition grows :: "('n, 'w) state \<Rightarrow> ('n, 'w) state \<Rightarrow> bool" where
  "grows st st' \<longleftrightarrow> prefix (calls st) (calls st')"

text \<open>
  The state in which the loop over the domains starts: the domain builder has run.
\<close>

definition after_get_domains ::
  "('n, 'w) Rule \<Rightarrow> 'n variables \<Rightarrow> ('n, 'w) DomainBuilder \<Rightarrow> ('n, 'w) state \<Rightarrow> ('n, 'w) state" where
  "after_get_domains self vars db st =
     (let vs = resolve_variables self vars
      in record_call (GetDomains vs)
           (case fst (db vs (backend st)) of Inl e \<Rightarrow> Some e | Inr _ \<Rightarrow> None)
           (st\<lparr>backend := snd (db vs (backend st))\<rparr>))"

text \<open>
  The \<^verbatim>\<open>variables\<close> a call was passed, and the calls that were passed \<open>vs\<close>
  (a container is constructed without variables).
\<close>

fun call_variables :: "'n call \<Rightarrow> 'n variables option" where
  "call_variables (GetDomains vs) = Some vs"
| "call_variables (NewParameterContainer d) = None"
| "call_variables (BuildParameters i c d vs ps c') = Some vs"
| "call_variables (BuildExpectationConfiguration j d vs ps) = Some vs"

definition passes :: "'n variables \<Rightarrow> ('n call \<times> error option) list \<Rightarrow> bool" where
  "passes vs cs = list_all (\<lambda>(c, x). call_variables c = None \<or> call_variables c = Some vs) cs"

text \<open>
  Which method was called, by the builder at which position, for which domain; and the
  order in which a Rule with \<open>n\<close> parameter builders and \<open>m\<close> expectation configuration
  builders calls them for the domains \<open>ds\<close> when nothing raises: domain by domain, first
  the container, then every parameter builder, then every configuration builder.
\<close>

datatype event =
  AtGetDomains
  | AtNewParameterContainer Domain
  | AtBuildParameters nat Domain
  | AtBuildExpectationConfiguration nat Domain

fun event_of :: "'n call \<Rightarrow> event" where
  "event_of (GetDomains vs) = AtGetDomains"
| "event_of (NewParameterContainer d) = AtNewParameterContainer d"
| "event_of (BuildParameters i c d vs ps c') = AtBuildParameters i d"
| "event_of (BuildExpectationConfiguration j d vs ps) = AtBuildExpectationConfiguration j d"

definition events :: "('n call \<times> error option) list \<Rightarrow> event list" where
  "events cs = map (\<lambda>(c, x). event_of c) cs"

definition domain_schedule :: "nat \<Rightarrow> nat \<Rightarrow> Domain \<Rightarrow> event list" where
  "domain_schedule n m d =
     AtNewParameterContainer d
     # map (\<lambda>i. AtBuildParameters i d) [0..<n]
     @ map (\<lambda>j. AtBuildExpectationConfiguration j d) [0..<m]"

definition schedule :: "nat \<Rightarrow> nat \<Rightarrow> Domain list \<Rightarrow> event list" where
  "schedule n m ds = AtGetDomains # concat (map (domain_schedule n m) ds)"

text \<open>
  The builders of an attribute; none when it is \<^verbatim>\<open>None\<close>.
\<close>

definition builders :: "'a list option \<Rightarrow> 'a list" where
  "builders bs = (case bs of None \<Rightarrow> [] | Some l \<Rightarrow> l)"

text \<open>
  The configuration \<open>cfg\<close> is one the builder \<open>b\<close> returns for the domain \<open>d\<close> and the
  variables \<open>vs\<close>.
\<close>

definition built_by ::
  "Domain \<Rightarrow> 'n variables \<Rightarrow> ('n, 'w) ExpectationConfigurationBuilder
     \<Rightarrow> 'n ExpectationConfiguration \<Rightarrow> bool" where
  "built_by d vs b cfg \<longleftrightarrow> (\<exists>ps w. fst (b d vs ps w) = Inr cfg)"

text \<open>
  The value of \<^verbatim>\<open>self._parameters\<close> as the calls change it: constructing a container
  registers an empty one under the id of the domain, \<^verbatim>\<open>build_parameters\<close> leaves what it
  wrote in the container of its domain, and nothing else touches the dict.
  \<open>snapshots m cs\<close>: when the dict has the value \<open>m\<close> before the calls \<open>cs\<close>, every builder
  is passed as \<^verbatim>\<open>parameters\<close> the value the dict has at that moment, which has an entry
  for its domain, and \<^verbatim>\<open>build_parameters\<close> is handed the container of that entry.
\<close>

fun replay_call :: "'n call \<Rightarrow> 'n parameters \<Rightarrow> 'n parameters" where
  "replay_call (GetDomains vs) m = m"
| "replay_call (NewParameterContainer d) m =
     AList.update (domain_id d) (ParameterContainer None) m"
| "replay_call (BuildParameters i cin d vs ps cout) m = AList.update (domain_id d) cout m"
| "replay_call (BuildExpectationConfiguration j d vs ps) m = m"

definition replay ::
  "('n call \<times> error option) list \<Rightarrow> 'n parameters \<Rightarrow> 'n parameters" where
  "replay cs m = fold (\<lambda>(c, x). replay_call c) cs m"

fun snapshots :: "'n parameters \<Rightarrow> ('n call \<times> error option) list \<Rightarrow> bool" where
  "snapshots m [] = True"
| "snapshots m ((c, x) # cs) =
     ((case c of
         BuildParameters i cin d vs ps cout \<Rightarrow> ps = m \<and> map_of m (domain_id d) = Some cin
       | BuildExpectationConfiguration j d vs ps \<Rightarrow> ps = m \<and> domain_id d \<in> fst ` set m
       | _ \<Rightarrow> True)
      \<and> snapshots (replay_call c m) cs)"

text \<open>
  The ids under which the calls registered a container. \<open>starts_empty d cs\<close>: if the
  calls \<open>cs\<close> begin with \<^verbatim>\<open>build_parameters\<close> for the domain \<open>d\<close>, that call is handed an
  empty container and sees it under the id of \<open>d\<close>. \<open>covered K cs\<close>: a container is empty
  when the first builder runs after its registration, and the \<^verbatim>\<open>parameters\<close> argument of
  every call has an entry for every key in \<open>K\<close> and for every id registered before the call,
  the entry of its own domain being the container \<^verbatim>\<open>build_parameters\<close> is handed.
\<close>

fun registered :: "('n call \<times> error option) list \<Rightarrow> string list" where
  "registered [] = []"
| "registered ((c, x) # cs) =
     (case c of NewParameterContainer d \<Rightarrow> domain_id d # registered cs | _ \<Rightarrow> registered cs)"

definition starts_empty :: "Domain \<Rightarrow> ('n call \<times> error option) list \<Rightarrow> bool" where
  "starts_empty d cs =
     (case cs of
        (BuildParameters i cin d' vs ps cout, x) # _ \<Rightarrow>
          d' = d \<longrightarrow>
            cin = ParameterContainer None
            \<and> map_of ps (domain_id d) = Some (ParameterContainer None)
      | _ \<Rightarrow> True)"

fun covered :: "string list \<Rightarrow> ('n call \<times> error option) list \<Rightarrow> bool" where
  "covered K [] = True"
| "covered K ((c, x) # cs) =
     (case c of
        GetDomains vs \<Rightarrow> covered K cs
      | NewParameterContainer d \<Rightarrow> starts_empty d cs \<and> covered (domain_id d # K) cs
      | BuildParameters i cin d vs ps cout \<Rightarrow>
          set K \<subseteq> fst ` set ps \<and> map_of ps (domain_id d) = Some cin \<and> covered K cs
      | BuildExpectationConfiguration j d vs ps \<Rightarrow>
          set K \<subseteq> fst ` set ps \<and> domain_id d \<in> fst ` set ps \<and> covered K cs)"

text \<open>
  Two states in which a Rule has the same parameters, by value, and the backend is in
  the same state. The addresses may differ.
\<close>

definition sim :: "('n, 'w) Rule \<Rightarrow> ('n, 'w) state \<Rightarrow> ('n, 'w) state \<Rightarrow> bool" where
  "sim self st1 st2 \<longleftrightarrow>
     wf self st1 \<and> wf self st2
     \<and> view st1 (self_parameters self) = view st2 (self_parameters self)
     \<and> backend st1 = backend st2"

subsection \<open>Rules to run\<close>

text \<open>
  The scenario of the spec, section 8: the domain builder returns two columns, one
  parameter builder writes \<^verbatim>\<open>row_count = 100\<close>, one configuration builder emits a
  configuration, here with the number of domains that the \<^verbatim>\<open>parameters\<close> it was passed
  hold. None of the three reads or changes the backend: each is a function of its
  arguments.
\<close>

definition colA :: Domain where
  "colA = \<lparr>domain_type = ''column'', domain_kwargs = [(''column'', ''a'')], domain_id = ''A''\<rparr>"

definition colB :: Domain where
  "colB = \<lparr>domain_type = ''column'', domain_kwargs = [(''column'', ''b'')], domain_id = ''B''\<rparr>"

definition empty_state :: "(nat, nat) state" where
  "empty_state = \<lparr>dicts = (\<lambda>_. []), containers = (\<lambda>_. ParameterContainer None),
     next_addr = 0, backend = 0, calls = []\<rparr>"

definition two_columns :: "(nat, nat) DomainBuilder" where
  "two_columns vs w = (Inr [colA, colB], w)"

definition row_count :: "(nat, nat) ParameterBuilder" where
  "row_count c d vs ps w =
     (ParameterContainer (Some (AList.update ''row_count'' 100
        (case parameter_nodes c of None \<Rightarrow> [] | Some ns \<Rightarrow> ns))), None, w)"

definition count_domains :: "(nat, nat) ExpectationConfigurationBuilder" where
  "count_domains d vs ps w =
     (Inr \<lparr>expectation_type = ''expect_column_values_to_not_be_null'',
           kwargs = [(''domains'', length ps)]\<rparr>, w)"

definition example_rule :: "(nat, nat) Rule \<times> (nat, nat) state" where
  "example_rule = Rule_init \<lparr>variables = None\<rparr> ''r'' (Some two_columns) (Some [row_count])
      (Some [count_domains]) empty_state"

definition example_run ::
  "(error + nat ExpectationConfiguration list) \<times> (nat, nat) state" where
  "example_run = generate (fst example_rule) None (snd example_rule)"

text \<open>
  A parameter builder that fails on column \<open>b\<close>, after it has written into the
  container.
\<close>

definition fails_on_b :: "(nat, nat) ParameterBuilder" where
  "fails_on_b c d vs ps w =
     (let nodes = (case parameter_nodes c of None \<Rightarrow> [] | Some ns \<Rightarrow> ns)
      in if domain_id d = ''B''
         then (ParameterContainer (Some (nodes @ [(''partial'', 1)])),
               Some ParameterComputationError, w)
         else (ParameterContainer (Some (nodes @ [(''checked'', 1)])), None, w))"

definition failing_rule :: "(nat, nat) Rule \<times> (nat, nat) state" where
  "failing_rule = Rule_init \<lparr>variables = None\<rparr> ''r'' (Some two_columns)
      (Some [row_count, fails_on_b]) (Some [count_domains]) empty_state"

definition failing_run ::
  "(error + nat ExpectationConfiguration list) \<times> (nat, nat) state" where
  "failing_run = generate (fst failing_rule) None (snd failing_rule)"

text \<open>
  A domain builder that cannot reach its data, with a parameter builder that counts
  its calls in the backend.
\<close>

definition unreachable :: "(nat, nat) DomainBuilder" where
  "unreachable vs w = (Inl DomainDiscoveryError, w)"

definition counted_row_count :: "(nat, nat) ParameterBuilder" where
  "counted_row_count c d vs ps w =
     (fst (row_count c d vs ps w), fst (snd (row_count c d vs ps w)), Suc w)"

definition unreachable_rule :: "(nat, nat) Rule \<times> (nat, nat) state" where
  "unreachable_rule = Rule_init \<lparr>variables = None\<rparr> ''r'' (Some unreachable)
      (Some [counted_row_count]) (Some [count_domains]) empty_state"

text \<open>
  Rules constructed with the default arguments: all three, the two builder lists with
  a domain builder that finds two columns, and the two builder lists with a domain
  builder that finds no domain.
\<close>

definition bare_rule :: "(nat, nat) Rule \<times> (nat, nat) state" where
  "bare_rule = Rule_init \<lparr>variables = None\<rparr> ''r'' None None None empty_state"

definition no_builders_rule :: "(nat, nat) Rule \<times> (nat, nat) state" where
  "no_builders_rule = Rule_init \<lparr>variables = None\<rparr> ''r'' (Some two_columns) None None
      empty_state"

definition no_domains :: "(nat, nat) DomainBuilder" where
  "no_domains vs w = (Inr [], w)"

definition default_rule :: "(nat, nat) Rule \<times> (nat, nat) state" where
  "default_rule = Rule_init \<lparr>variables = None\<rparr> ''r'' (Some no_domains) None None empty_state"

section \<open>Properties\<close>

subsection \<open>Copying\<close>

lemma deepcopy_items_frame:
  "calls (snd (deepcopy_items kvs st)) = calls st"
  "backend (snd (deepcopy_items kvs st)) = backend st"
  "dicts (snd (deepcopy_items kvs st)) = dicts st"
  "next_addr (snd (deepcopy_items kvs st)) = next_addr st + length kvs"
  by (induction kvs arbitrary: st) (auto simp: new_container_def split_def Let_def)

lemma deepcopy_items_old:
  "a < next_addr st \<Longrightarrow> containers (snd (deepcopy_items kvs st)) a = containers st a"
  by (induction kvs arbitrary: st) (auto simp: new_container_def split_def Let_def)

lemma deepcopy_items_addrs:
  "a \<in> snd ` set (fst (deepcopy_items kvs st)) \<Longrightarrow>
   next_addr st \<le> a \<and> a < next_addr st + length kvs"
proof (induction kvs arbitrary: st)
  case Nil
  then show ?case by simp
next
  case (Cons kv kvs)
  obtain k b where kv: "kv = (k, b)" by (cases kv)
  let ?st1 = "snd (new_container (containers st b) st)"
  have n1: "next_addr ?st1 = Suc (next_addr st)" by (simp add: new_container_def)
  from Cons.prems have "a = next_addr st \<or> a \<in> snd ` set (fst (deepcopy_items kvs ?st1))"
    by (auto simp: kv split_def Let_def new_container_def)
  then show ?case
  proof
    assume "a = next_addr st" then show ?thesis by simp
  next
    assume "a \<in> snd ` set (fst (deepcopy_items kvs ?st1))"
    from Cons.IH [OF this] n1 show ?thesis by simp
  qed
qed

lemma deepcopy_items_view:
  "\<forall>a \<in> snd ` set kvs. a < next_addr st \<Longrightarrow>
   map (\<lambda>(k, a). (k, containers (snd (deepcopy_items kvs st)) a)) (fst (deepcopy_items kvs st))
     = map (\<lambda>(k, a). (k, containers st a)) kvs"
proof (induction kvs arbitrary: st)
  case Nil
  then show ?case by simp
next
  case (Cons kv kvs)
  obtain k a where kv: "kv = (k, a)" by (cases kv)
  let ?st1 = "snd (new_container (containers st a) st)"
  have n1: "next_addr ?st1 = Suc (next_addr st)" by (simp add: new_container_def)
  have old: "\<And>b. b < next_addr st \<Longrightarrow> containers ?st1 b = containers st b"
    by (simp add: new_container_def)
  have new: "containers ?st1 (next_addr st) = containers st a"
    by (simp add: new_container_def)
  have bnd: "\<forall>b \<in> snd ` set kvs. b < next_addr ?st1" using Cons.prems n1 by auto
  have IH: "map (\<lambda>(k, a). (k, containers (snd (deepcopy_items kvs ?st1)) a)) (fst (deepcopy_items kvs ?st1))
     = map (\<lambda>(k, a). (k, containers ?st1 a)) kvs" by (rule Cons.IH [OF bnd])
  have "map (\<lambda>(k, a). (k, containers ?st1 a)) kvs = map (\<lambda>(k, a). (k, containers st a)) kvs"
    using Cons.prems old by (auto simp: split_def)
  moreover have "containers (snd (deepcopy_items kvs ?st1)) (next_addr st) = containers st a"
    using deepcopy_items_old [of "next_addr st" ?st1 kvs] n1 new by simp
  ultimately show ?case using IH
    by (simp add: kv split_def Let_def new_container_def)
qed

lemma parameters_frame:
  "calls (snd (parameters self st)) = calls st"
  "backend (snd (parameters self st)) = backend st"
  "next_addr st < next_addr (snd (parameters self st))"
  "fst (parameters self st) = next_addr st"
  by (simp_all add: parameters_def deepcopy_def new_dict_def split_def Let_def
        deepcopy_items_frame)

lemma parameters_old_dicts:
  "x < next_addr st \<Longrightarrow> dicts (snd (parameters self st)) x = dicts st x"
  by (simp add: parameters_def deepcopy_def new_dict_def split_def Let_def
        deepcopy_items_frame)

lemma parameters_old_containers:
  "a < next_addr st \<Longrightarrow> containers (snd (parameters self st)) a = containers st a"
  by (simp add: parameters_def deepcopy_def new_dict_def split_def Let_def
        deepcopy_items_old)

lemma parameters_fresh:
  assumes "a \<in> snd ` set (dicts (snd (parameters self st)) (fst (parameters self st)))"
  shows "next_addr st < a \<and> a < next_addr (snd (parameters self st))"
proof -
  let ?st1 = "snd (new_dict [] st)"
  have "a \<in> snd ` set (fst (deepcopy_items (dicts ?st1 (self_parameters self)) ?st1))"
    using assms by (simp add: parameters_def deepcopy_def split_def Let_def new_dict_def)
  from deepcopy_items_addrs [OF this] show ?thesis
    by (simp add: parameters_def deepcopy_def split_def Let_def new_dict_def
          deepcopy_items_frame)
qed

lemma parameters_view:
  assumes "wf self st"
  shows "view (snd (parameters self st)) (fst (parameters self st)) = view st (self_parameters self)"
proof -
  let ?x = "self_parameters self"
  let ?st1 = "snd (new_dict [] st)"
  have x: "?x < next_addr st" and bnd: "\<forall>a \<in> snd ` set (dicts st ?x). a < next_addr st"
    using assms by (auto simp: wf_def list_all_iff)
  have d1: "dicts ?st1 ?x = dicts st ?x" using x by (simp add: new_dict_def)
  have c1: "containers ?st1 = containers st" by (simp add: new_dict_def)
  have "\<forall>a \<in> snd ` set (dicts st ?x). a < next_addr ?st1"
    using bnd by (auto simp: new_dict_def)
  from deepcopy_items_view [OF this] x show ?thesis
    by (simp add: view_def parameters_def deepcopy_def split_def Let_def d1 c1 new_dict_def)
qed

lemma view_cong:
  assumes "dicts st' x = dicts st x"
    and "\<And>k a. (k, a) \<in> set (dicts st x) \<Longrightarrow> containers st' a = containers st a"
  shows "view st' x = view st x"
  using assms by (auto simp: view_def)

lemma parameters_self_view:
  assumes "wf self st"
  shows "view (snd (parameters self st)) (self_parameters self) = view st (self_parameters self)"
  using assms
  by (intro view_cong) (force simp: wf_def list_all_iff parameters_old_dicts parameters_old_containers)+

lemma parameters_wf:
  assumes "wf self st"
  shows "wf self (snd (parameters self st))"
  using assms parameters_frame(3) [of st self]
  by (force simp: wf_def list_all_iff parameters_old_dicts)

lemma set_update_subset: "set (AList.update k v al) \<subseteq> insert (k, v) (set al)"
  by (induction al) auto

lemma mutate_isolated:
  assumes "isolated n st0 y st"
  shows "isolated n st0 y (mutate y m st)"
proof (cases m)
  case (SetItem k c)
  show ?thesis using assms set_update_subset [of k "next_addr st" "dicts st y"]
    by (auto simp: SetItem isolated_def new_container_def setitem_def)
next
  case (SetAlias k k')
  show ?thesis
  proof (cases "map_of (dicts st y) k'")
    case None
    then show ?thesis using assms by (simp add: SetAlias)
  next
    case (Some a)
    then have "(k', a) \<in> set (dicts st y)" by (rule map_of_SomeD)
    then have "n \<le> a" using assms by (force simp: isolated_def)
    then show ?thesis using assms Some set_update_subset [of k a "dicts st y"]
      by (auto simp: SetAlias isolated_def setitem_def)
  qed
next
  case (DelItem k)
  show ?thesis using assms
    by (auto simp: DelItem isolated_def AList.delete_eq)
next
  case (SetNodes k nodes)
  show ?thesis
  proof (cases "map_of (dicts st y) k")
    case None
    then show ?thesis using assms by (simp add: SetNodes)
  next
    case (Some a)
    then have "(k, a) \<in> set (dicts st y)" by (rule map_of_SomeD)
    then have "n \<le> a" using assms by (force simp: isolated_def)
    then show ?thesis using assms Some
      by (auto simp: SetNodes isolated_def)
  qed
next
  case Clear
  show ?thesis using assms by (auto simp: Clear isolated_def)
qed

lemma fold_mutate_isolated:
  "isolated n st0 y st \<Longrightarrow> isolated n st0 y (fold (mutate y) ms st)"
  by (induction ms arbitrary: st) (simp_all add: mutate_isolated)

lemma parameters_isolated:
  "isolated (next_addr st) st (fst (parameters self st)) (snd (parameters self st))"
  using parameters_fresh [of _ self st] parameters_frame(3) [of st self]
  by (auto simp: isolated_def parameters_frame(4) parameters_old_dicts
        parameters_old_containers intro: less_imp_le)

lemma isolated_view:
  assumes "wf self st0" and "isolated (next_addr st0) st0 y st"
  shows "view st (self_parameters self) = view st0 (self_parameters self)"
    and "wf self st"
  using assms by (auto simp: wf_def isolated_def list_all_iff view_def)

lemma Rule_init_wf:
  "wf (fst (Rule_init p n db pbs ecbs st)) (snd (Rule_init p n db pbs ecbs st))"
  by (simp add: Rule_init_def new_dict_def wf_def Let_def)

subsection \<open>The runs of the example rules\<close>

lemmas ex_defs = example_rule_def Rule_init_def new_dict_def empty_state_def two_columns_def
  row_count_def count_domains_def colA_def colB_def

lemmas run_defs = generate_def generate_domain_def new_parameter_container_def
  call_build_parameters_def call_build_expectation_configuration_def
  resolve_variables_def record_call_def new_container_def
  setitem_def parameters_def deepcopy_def view_def enumerate_eq_zip
  generate_domains.simps run_parameter_builders.simps
  run_expectation_configuration_builders.simps

lemmas more_defs = failing_rule_def failing_run_def fails_on_b_def unreachable_def
  unreachable_rule_def bare_rule_def no_builders_rule_def

lemma example_run_result:
  "fst example_run =
     Inr [\<lparr>expectation_type = ''expect_column_values_to_not_be_null'',
            kwargs = [(''domains'', 1)]\<rparr>,
          \<lparr>expectation_type = ''expect_column_values_to_not_be_null'',
            kwargs = [(''domains'', 2)]\<rparr>]"
  by (simp add: example_run_def ex_defs run_defs Let_def)

lemma example_rule_wf: "wf (fst example_rule) (snd example_rule)"
  by (simp add: example_rule_def Rule_init_wf)

lemma failing_run_result: "fst failing_run = Inl ParameterComputationError"
  by (simp add: more_defs ex_defs run_defs Let_def)

lemma failing_run_calls:
  "new_calls (snd failing_rule) (snd failing_run) =
    [(GetDomains None, None),
     (NewParameterContainer colA, None),
     (BuildParameters 0 (ParameterContainer None) colA None
        [(''A'', ParameterContainer None)]
        (ParameterContainer (Some [(''row_count'', 100)])), None),
     (BuildParameters 1 (ParameterContainer (Some [(''row_count'', 100)])) colA None
        [(''A'', ParameterContainer (Some [(''row_count'', 100)]))]
        (ParameterContainer (Some [(''row_count'', 100), (''checked'', 1)])), None),
     (BuildExpectationConfiguration 0 colA None
        [(''A'', ParameterContainer (Some [(''row_count'', 100), (''checked'', 1)]))], None),
     (NewParameterContainer colB, None),
     (BuildParameters 0 (ParameterContainer None) colB None
        [(''A'', ParameterContainer (Some [(''row_count'', 100), (''checked'', 1)])),
         (''B'', ParameterContainer None)]
        (ParameterContainer (Some [(''row_count'', 100)])), None),
     (BuildParameters 1 (ParameterContainer (Some [(''row_count'', 100)])) colB None
        [(''A'', ParameterContainer (Some [(''row_count'', 100), (''checked'', 1)])),
         (''B'', ParameterContainer (Some [(''row_count'', 100)]))]
        (ParameterContainer (Some [(''row_count'', 100), (''partial'', 1)])),
      Some ParameterComputationError)]"
  by (simp add: more_defs ex_defs run_defs Let_def new_calls_def)

lemma failing_run_view:
  "view (snd failing_run) (self_parameters (fst failing_rule)) =
     [(''A'', ParameterContainer (Some [(''row_count'', 100), (''checked'', 1)])),
      (''B'', ParameterContainer (Some [(''row_count'', 100), (''partial'', 1)]))]"
  by (simp add: more_defs ex_defs run_defs Let_def)

lemma failing_rule_wf: "wf (fst failing_rule) (snd failing_rule)"
  by (simp add: failing_rule_def Rule_init_wf)

subsection \<open>The accessor \<^verbatim>\<open>Rule.parameters\<close>\<close>

text \<open>
  C1: in every state of a Rule, the dict that \<^verbatim>\<open>Rule.parameters\<close> returns has the value
  of the Rule's own dict. Whatever the caller then does to the returned dict and to the
  containers in it, the Rule's dict keeps its value, and the next \<^verbatim>\<open>Rule.parameters\<close>
  returns what it would have returned without the mutation.
\<close>

theorem parameters_deep_copy:
  assumes "wf self st"
  shows "view (snd (parameters self st)) (fst (parameters self st))
           = view st (self_parameters self)
         \<and> (let y = fst (parameters self st);
                 st' = fold (mutate y) ms (snd (parameters self st))
             in view st' (self_parameters self) = view st (self_parameters self)
                \<and> view (snd (parameters self st')) (fst (parameters self st'))
                    = view (snd (parameters self (snd (parameters self st))))
                        (fst (parameters self (snd (parameters self st)))))"
proof -
  let ?y = "fst (parameters self st)"
  let ?st1 = "snd (parameters self st)"
  let ?st' = "fold (mutate ?y) ms ?st1"
  have iso: "isolated (next_addr st) st ?y ?st'"
    by (rule fold_mutate_isolated) (rule parameters_isolated)
  have v: "view ?st' (self_parameters self) = view st (self_parameters self)"
    and w: "wf self ?st'"
    using isolated_view [OF assms iso] by simp_all
  have "view (snd (parameters self ?st')) (fst (parameters self ?st'))
          = view st (self_parameters self)"
    using parameters_view [OF w] v by simp
  moreover have "view (snd (parameters self ?st1)) (fst (parameters self ?st1))
          = view st (self_parameters self)"
    using parameters_view [OF parameters_wf [OF assms]] parameters_self_view [OF assms]
    by simp
  ultimately show ?thesis using v parameters_view [OF assms] by (simp add: Let_def)
qed

theorem parameters_deep_copy_witness:
  "wf (fst example_rule) (snd example_run)
   \<and> view (snd (parameters (fst example_rule) (snd example_run)))
         (fst (parameters (fst example_rule) (snd example_run)))
       = [(''A'', ParameterContainer (Some [(''row_count'', 100)])),
          (''B'', ParameterContainer (Some [(''row_count'', 100)]))]
   \<and> view (fold (mutate (fst (parameters (fst example_rule) (snd example_run))))
               [SetNodes ''A'' None, DelItem ''B'', SetItem ''C'' (ParameterContainer None)]
               (snd (parameters (fst example_rule) (snd example_run))))
         (self_parameters (fst example_rule))
       = [(''A'', ParameterContainer (Some [(''row_count'', 100)])),
          (''B'', ParameterContainer (Some [(''row_count'', 100)]))]"
proof -
  have w: "wf (fst example_rule) (snd example_run)"
    by (simp add: example_run_def ex_defs run_defs wf_def Let_def)
  have v: "view (snd example_run) (self_parameters (fst example_rule))
       = [(''A'', ParameterContainer (Some [(''row_count'', 100)])),
          (''B'', ParameterContainer (Some [(''row_count'', 100)]))]"
    by (simp add: example_run_def ex_defs run_defs Let_def)
  show ?thesis
    using w v parameters_deep_copy [OF w,
      of "[SetNodes ''A'' None, DelItem ''B'', SetItem ''C'' (ParameterContainer None)]"]
    by (simp add: Let_def)
qed

subsection \<open>The record of calls\<close>

lemma grows_refl [simp]: "grows st st"
  by (simp add: grows_def)

lemma grows_trans: "grows st st1 \<Longrightarrow> grows st1 st2 \<Longrightarrow> grows st st2"
  by (auto simp: grows_def)

lemma new_calls_refl [simp]: "new_calls st st = []"
  by (simp add: new_calls_def)

lemma new_calls_append:
  "grows st st1 \<Longrightarrow> grows st1 st2 \<Longrightarrow> new_calls st st2 = new_calls st st1 @ new_calls st1 st2"
  by (auto simp: grows_def new_calls_def prefix_def)

lemma grows_snoc: "calls st' = calls st @ es \<Longrightarrow> grows st st'"
  by (simp add: grows_def)

lemma new_calls_snoc: "calls st' = calls st @ es \<Longrightarrow> new_calls st st' = es"
  by (simp add: new_calls_def)

lemma call_build_parameters_calls:
  "\<exists>cin ps cout. calls (snd (call_build_parameters self pc d vs i pb st))
      = calls st @ [(BuildParameters i cin d vs ps cout,
                     fst (call_build_parameters self pc d vs i pb st))]"
  by (simp add: call_build_parameters_def record_call_def Let_def split_def parameters_frame)

lemma call_build_expectation_configuration_calls:
  "\<exists>ps. calls (snd (call_build_expectation_configuration self d vs j b st))
      = calls st @ [(BuildExpectationConfiguration j d vs ps,
           case fst (call_build_expectation_configuration self d vs j b st) of
             Inl e \<Rightarrow> Some e | Inr _ \<Rightarrow> None)]"
  by (simp add: call_build_expectation_configuration_def record_call_def Let_def split_def
        parameters_frame)

lemma new_parameter_container_calls:
  "calls (snd (new_parameter_container self d st)) = calls st @ [(NewParameterContainer d, None)]"
  by (simp add: new_parameter_container_def record_call_def Let_def split_def
        new_container_def setitem_def)

lemma grows_call_build_parameters:
  "grows st (snd (call_build_parameters self pc d vs i pb st))"
  using call_build_parameters_calls [of self pc d vs i pb st] by (auto intro: grows_snoc)

lemma grows_call_build_expectation_configuration:
  "grows st (snd (call_build_expectation_configuration self d vs j b st))"
  using call_build_expectation_configuration_calls [of self d vs j b st]
  by (auto intro: grows_snoc)

lemma grows_new_parameter_container:
  "grows st (snd (new_parameter_container self d st))"
  using new_parameter_container_calls [of self d st] by (auto intro: grows_snoc)

lemma grows_run_parameter_builders:
  "grows st (snd (run_parameter_builders self pc d vs ips st))"
proof (induction ips arbitrary: st)
  case Nil
  show ?case by simp
next
  case (Cons ip ips)
  obtain i pb where ip: "ip = (i, pb)" by (cases ip)
  show ?case
    using grows_call_build_parameters [of st self pc d vs i pb]
      Cons.IH [of "snd (call_build_parameters self pc d vs i pb st)"]
    by (auto simp: ip split: prod.splits option.splits intro: grows_trans)
qed

lemma grows_run_expectation_configuration_builders:
  "grows st (snd (run_expectation_configuration_builders self d vs jbs acc st))"
proof (induction jbs arbitrary: st acc)
  case Nil
  show ?case by simp
next
  case (Cons jb jbs)
  obtain j b where jb: "jb = (j, b)" by (cases jb)
  show ?case
    using grows_call_build_expectation_configuration [of st self d vs j b]
      Cons.IH [of "snd (call_build_expectation_configuration self d vs j b st)"]
    by (auto simp: jb split: prod.splits sum.splits intro: grows_trans)
qed

lemma grows_generate_domain:
  "grows st (snd (generate_domain self vs d acc st))"
  using grows_new_parameter_container [of st self d]
    grows_run_parameter_builders [of "snd (new_parameter_container self d st)" self
      "fst (new_parameter_container self d st)" d vs]
    grows_run_expectation_configuration_builders [of _ self d vs]
  by (auto simp: generate_domain_def Let_def split: prod.splits option.splits
        intro: grows_trans) (metis grows_trans snd_conv)+

lemma grows_generate_domains:
  "grows st (snd (generate_domains self vs ds acc st))"
proof (induction ds arbitrary: st acc)
  case Nil
  show ?case by simp
next
  case (Cons d ds)
  show ?case
    using grows_generate_domain [of st self vs d acc]
      Cons.IH [of "snd (generate_domain self vs d acc st)"]
    by (auto split: prod.splits sum.splits intro: grows_trans)
qed

subsection \<open>Errors\<close>

lemma raised_call_build_parameters:
  assumes "(c, Some e) \<in> set (new_calls st (snd (call_build_parameters self pc d vs i pb st)))"
  shows "fst (call_build_parameters self pc d vs i pb st) = Some e"
proof -
  obtain cin ps cout where
    "calls (snd (call_build_parameters self pc d vs i pb st))
      = calls st @ [(BuildParameters i cin d vs ps cout,
                     fst (call_build_parameters self pc d vs i pb st))]"
    using call_build_parameters_calls by blast
  from new_calls_snoc [OF this] assms show ?thesis by simp
qed

lemma raised_call_build_expectation_configuration:
  assumes "(c, Some e)
     \<in> set (new_calls st (snd (call_build_expectation_configuration self d vs j b st)))"
  shows "\<exists>st'. call_build_expectation_configuration self d vs j b st = (Inl e, st')"
proof -
  obtain ps where
    "calls (snd (call_build_expectation_configuration self d vs j b st))
      = calls st @ [(BuildExpectationConfiguration j d vs ps,
           case fst (call_build_expectation_configuration self d vs j b st) of
             Inl e \<Rightarrow> Some e | Inr _ \<Rightarrow> None)]"
    using call_build_expectation_configuration_calls by blast
  from new_calls_snoc [OF this] assms show ?thesis
    by (cases "call_build_expectation_configuration self d vs j b st")
       (auto split: sum.splits)
qed

lemma raised_run_parameter_builders:
  "(c, Some e) \<in> set (new_calls st (snd (run_parameter_builders self pc d vs ips st)))
   \<Longrightarrow> fst (run_parameter_builders self pc d vs ips st) = Some e"
proof (induction ips arbitrary: st)
  case Nil
  then show ?case by simp
next
  case (Cons ip ips)
  obtain i pb where ip: "ip = (i, pb)" by (cases ip)
  obtain r st1 where step: "call_build_parameters self pc d vs i pb st = (r, st1)"
    by (cases "call_build_parameters self pc d vs i pb st")
  have g1: "grows st st1"
    using grows_call_build_parameters [of st self pc d vs i pb] step by simp
  show ?case
  proof (cases r)
    case (Some e')
    with Cons.prems step ip raised_call_build_parameters [of c e st self pc d vs i pb]
    show ?thesis by simp
  next
    case None
    have g2: "grows st1 (snd (run_parameter_builders self pc d vs ips st1))"
      by (rule grows_run_parameter_builders)
    from Cons.prems step ip None new_calls_append [OF g1 g2]
    have "(c, Some e) \<in> set (new_calls st st1)
        \<or> (c, Some e) \<in> set (new_calls st1 (snd (run_parameter_builders self pc d vs ips st1)))"
      by auto
    then show ?thesis
    proof
      assume "(c, Some e) \<in> set (new_calls st st1)"
      with raised_call_build_parameters [of c e st self pc d vs i pb] step None
      show ?thesis by simp
    next
      assume "(c, Some e) \<in> set (new_calls st1 (snd (run_parameter_builders self pc d vs ips st1)))"
      from Cons.IH [OF this] step ip None show ?thesis by simp
    qed
  qed
qed

lemma raised_run_expectation_configuration_builders:
  "(c, Some e)
     \<in> set (new_calls st (snd (run_expectation_configuration_builders self d vs jbs acc st)))
   \<Longrightarrow> fst (run_expectation_configuration_builders self d vs jbs acc st) = Inl e"
proof (induction jbs arbitrary: st acc)
  case Nil
  then show ?case by simp
next
  case (Cons jb jbs)
  obtain j b where jb: "jb = (j, b)" by (cases jb)
  obtain r st1 where step: "call_build_expectation_configuration self d vs j b st = (r, st1)"
    by (cases "call_build_expectation_configuration self d vs j b st")
  have g1: "grows st st1"
    using grows_call_build_expectation_configuration [of st self d vs j b] step by simp
  show ?case
  proof (cases r)
    case (Inl e')
    with Cons.prems step jb
      raised_call_build_expectation_configuration [of c e st self d vs j b]
    show ?thesis by simp
  next
    case (Inr cfg)
    let ?st2 = "snd (run_expectation_configuration_builders self d vs jbs (acc @ [cfg]) st1)"
    have g2: "grows st1 ?st2"
      by (rule grows_run_expectation_configuration_builders)
    from Cons.prems step jb Inr new_calls_append [OF g1 g2]
    have "(c, Some e) \<in> set (new_calls st st1) \<or> (c, Some e) \<in> set (new_calls st1 ?st2)"
      by auto
    then show ?thesis
    proof
      assume "(c, Some e) \<in> set (new_calls st st1)"
      with raised_call_build_expectation_configuration [of c e st self d vs j b] step Inr
      show ?thesis by simp
    next
      assume "(c, Some e) \<in> set (new_calls st1 ?st2)"
      from Cons.IH [OF this] step jb Inr show ?thesis by simp
    qed
  qed
qed

lemma raised_generate_domain:
  assumes "(c, Some e) \<in> set (new_calls st (snd (generate_domain self vs d acc st)))"
  shows "fst (generate_domain self vs d acc st) = Inl e"
proof -
  obtain pc st1 where reg: "new_parameter_container self d st = (pc, st1)"
    by (cases "new_parameter_container self d st")
  have c1: "new_calls st st1 = [(NewParameterContainer d, None)]"
    using new_parameter_container_calls [of self d st] reg by (simp add: new_calls_snoc)
  have g1: "grows st st1" using grows_new_parameter_container [of st self d] reg by simp
  show ?thesis
  proof (cases "self_parameter_builders self")
    case None
    with assms reg c1 show ?thesis by (simp add: generate_domain_def)
  next
    case (Some pbs)
    obtain r st2 where run: "run_parameter_builders self pc d vs (enumerate 0 pbs) st1 = (r, st2)"
      by (cases "run_parameter_builders self pc d vs (enumerate 0 pbs) st1")
    have g2: "grows st1 st2"
      using grows_run_parameter_builders [of st1 self pc d vs "enumerate 0 pbs"] run by simp
    have r2: "(c, Some e) \<in> set (new_calls st1 st2) \<Longrightarrow> r = Some e"
      using raised_run_parameter_builders [of c e st1 self pc d vs "enumerate 0 pbs"] run
      by simp
    show ?thesis
    proof (cases r)
      case (Some e')
      with assms reg run \<open>self_parameter_builders self = Some pbs\<close>
        new_calls_append [OF g1 g2] c1 r2
      show ?thesis by (auto simp: generate_domain_def)
    next
      case None
      note rNone = None
      show ?thesis
      proof (cases "self_expectation_configuration_builders self")
        case None
        with assms reg run rNone \<open>self_parameter_builders self = Some pbs\<close>
          new_calls_append [OF g1 g2] c1 r2
        show ?thesis by (auto simp: generate_domain_def)
      next
        case (Some ecbs)
        let ?run3 = "run_expectation_configuration_builders self d vs (enumerate 0 ecbs) acc st2"
        have g3: "grows st2 (snd ?run3)"
          by (rule grows_run_expectation_configuration_builders)
        have eq: "generate_domain self vs d acc st = ?run3"
          using reg run rNone Some \<open>self_parameter_builders self = Some pbs\<close>
          by (simp add: generate_domain_def)
        have "new_calls st (snd ?run3) = new_calls st st1 @ new_calls st1 st2 @ new_calls st2 (snd ?run3)"
          using new_calls_append [OF g1 grows_trans [OF g2 g3]] new_calls_append [OF g2 g3]
          by simp
        with assms eq c1 r2 rNone
        have "(c, Some e) \<in> set (new_calls st2 (snd ?run3))" by auto
        from raised_run_expectation_configuration_builders [OF this] eq show ?thesis by simp
      qed
    qed
  qed
qed

lemma raised_generate_domains:
  "(c, Some e) \<in> set (new_calls st (snd (generate_domains self vs ds acc st)))
   \<Longrightarrow> fst (generate_domains self vs ds acc st) = Inl e"
proof (induction ds arbitrary: st acc)
  case Nil
  then show ?case by simp
next
  case (Cons d ds)
  obtain r st1 where step: "generate_domain self vs d acc st = (r, st1)"
    by (cases "generate_domain self vs d acc st")
  have g1: "grows st st1" using grows_generate_domain [of st self vs d acc] step by simp
  have r1: "(c, Some e) \<in> set (new_calls st st1) \<Longrightarrow> r = Inl e"
    using raised_generate_domain [of c e st self vs d acc] step by simp
  show ?case
  proof (cases r)
    case (Inl e')
    with Cons.prems step r1 show ?thesis by simp
  next
    case (Inr acc')
    let ?st2 = "snd (generate_domains self vs ds acc' st1)"
    have g2: "grows st1 ?st2" by (rule grows_generate_domains)
    from Cons.prems step Inr new_calls_append [OF g1 g2] r1
    have "(c, Some e) \<in> set (new_calls st1 ?st2)" by auto
    from Cons.IH [OF this] step Inr show ?thesis by simp
  qed
qed

text \<open>
  C3: a call of a domain builder, parameter builder or expectation configuration
  builder that raises ends \<^verbatim>\<open>generate\<close> with that error: the result is the error and no
  list, whatever was built for the domains and builders before.
\<close>

theorem generate_propagates_errors:
  assumes "(c, Some e) \<in> set (new_calls st (snd (generate self vars st)))"
  shows "fst (generate self vars st) = Inl e"
proof (cases "self_domain_builder self")
  case None
  with assms show ?thesis by (simp add: generate_def)
next
  case (Some db)
  let ?vs = "resolve_variables self vars"
  obtain res w' where db: "db ?vs (backend st) = (res, w')"
    by (cases "db ?vs (backend st)")
  let ?st1 = "record_call (GetDomains ?vs) (case res of Inl e \<Rightarrow> Some e | Inr _ \<Rightarrow> None)
                (st\<lparr>backend := w'\<rparr>)"
  have c1: "calls ?st1 = calls st @ [(GetDomains ?vs, case res of Inl e \<Rightarrow> Some e | Inr _ \<Rightarrow> None)]"
    by (simp add: record_call_def)
  have g1: "grows st ?st1" using c1 by (rule grows_snoc)
  show ?thesis
  proof (cases res)
    case (Inl e')
    with assms Some db new_calls_snoc [OF c1] show ?thesis
      by (simp add: generate_def Let_def)
  next
    case (Inr ds)
    let ?st2 = "snd (generate_domains self ?vs ds [] ?st1)"
    have eq: "generate self vars st = generate_domains self ?vs ds [] ?st1"
      using Some db Inr by (simp add: generate_def Let_def)
    have g2: "grows ?st1 ?st2" by (rule grows_generate_domains)
    from assms eq new_calls_append [OF g1 g2] new_calls_snoc [OF c1] Inr
    have "(c, Some e) \<in> set (new_calls ?st1 ?st2)" by auto
    from raised_generate_domains [OF this] eq show ?thesis by simp
  qed
qed

theorem generate_propagates_errors_witness:
  "(BuildParameters 1 (ParameterContainer (Some [(''row_count'', 100)])) colB None
        [(''A'', ParameterContainer (Some [(''row_count'', 100), (''checked'', 1)])),
         (''B'', ParameterContainer (Some [(''row_count'', 100)]))]
        (ParameterContainer (Some [(''row_count'', 100), (''partial'', 1)])),
      Some ParameterComputationError)
     \<in> set (new_calls (snd failing_rule)
               (snd (generate (fst failing_rule) None (snd failing_rule))))
   \<and> fst (generate (fst failing_rule) None (snd failing_rule))
       = Inl ParameterComputationError"
proof -
  have h: "(BuildParameters 1 (ParameterContainer (Some [(''row_count'', 100)])) colB None
        [(''A'', ParameterContainer (Some [(''row_count'', 100), (''checked'', 1)])),
         (''B'', ParameterContainer (Some [(''row_count'', 100)]))]
        (ParameterContainer (Some [(''row_count'', 100), (''partial'', 1)])),
      Some ParameterComputationError)
     \<in> set (new_calls (snd failing_rule)
               (snd (generate (fst failing_rule) None (snd failing_rule))))"
    using failing_run_calls by (simp add: failing_run_def)
  show ?thesis by (rule conjI [OF h generate_propagates_errors [OF h]])
qed

text \<open>
  C4: when \<^verbatim>\<open>get_domains\<close> raises, \<^verbatim>\<open>generate\<close> ends with that error in the state the
  domain builder left: the only call made is \<^verbatim>\<open>get_domains\<close>, no parameter builder has
  run, and the store, with the Rule's parameter map, is as it was.
\<close>

theorem get_domains_raises:
  assumes "self_domain_builder self = Some db"
    and "db (resolve_variables self vars) (backend st) = (Inl e, w')"
  shows "generate self vars st
           = (Inl e, st\<lparr>backend := w',
                calls := calls st @ [(GetDomains (resolve_variables self vars), Some e)]\<rparr>)"
  using assms by (simp add: generate_def Let_def record_call_def)

theorem get_domains_raises_witness:
  "self_domain_builder (fst unreachable_rule) = Some unreachable
   \<and> generate (fst unreachable_rule) None (snd unreachable_rule)
       = (Inl DomainDiscoveryError,
          (snd unreachable_rule)\<lparr>backend := 0,
             calls := [(GetDomains None, Some DomainDiscoveryError)]\<rparr>)"
proof -
  have h1: "self_domain_builder (fst unreachable_rule) = Some unreachable"
    by (simp add: unreachable_rule_def Rule_init_def new_dict_def Let_def)
  have h2: "unreachable (resolve_variables (fst unreachable_rule) None)
              (backend (snd unreachable_rule)) = (Inl DomainDiscoveryError, 0)"
    by (simp add: unreachable_def unreachable_rule_def Rule_init_def new_dict_def
          empty_state_def Let_def)
  have v: "resolve_variables (fst unreachable_rule) None = None"
    and c: "calls (snd unreachable_rule) = []"
    by (simp_all add: resolve_variables_def unreachable_rule_def Rule_init_def new_dict_def
          empty_state_def Let_def)
  show ?thesis using h1 get_domains_raises [OF h1 h2] by (simp add: v c)
qed

subsection \<open>The calls of one run\<close>

lemma new_calls_call_build_parameters:
  "\<exists>cin ps cout. new_calls st (snd (call_build_parameters self pc d vs i pb st))
      = [(BuildParameters i cin d vs ps cout, fst (call_build_parameters self pc d vs i pb st))]"
  using call_build_parameters_calls [of self pc d vs i pb st]
  by (auto simp: new_calls_def)

lemma new_calls_call_build_expectation_configuration:
  "\<exists>ps. new_calls st (snd (call_build_expectation_configuration self d vs j b st))
      = [(BuildExpectationConfiguration j d vs ps,
           case fst (call_build_expectation_configuration self d vs j b st) of
             Inl e \<Rightarrow> Some e | Inr _ \<Rightarrow> None)]"
  using call_build_expectation_configuration_calls [of self d vs j b st]
  by (auto simp: new_calls_def)

lemma new_calls_new_parameter_container:
  "new_calls st (snd (new_parameter_container self d st)) = [(NewParameterContainer d, None)]"
  by (simp add: new_calls_snoc new_parameter_container_calls)

lemma new_calls_run_parameter_builders_Cons:
  "new_calls st (snd (run_parameter_builders self pc d vs ((i, pb) # ips) st))
     = new_calls st (snd (call_build_parameters self pc d vs i pb st))
       @ (case fst (call_build_parameters self pc d vs i pb st) of
            Some e \<Rightarrow> []
          | None \<Rightarrow> new_calls (snd (call_build_parameters self pc d vs i pb st))
                     (snd (run_parameter_builders self pc d vs ips
                            (snd (call_build_parameters self pc d vs i pb st)))))"
  using new_calls_append [OF grows_call_build_parameters [of st self pc d vs i pb]
      grows_run_parameter_builders [of _ self pc d vs ips]]
  by (auto split: prod.splits option.splits)

lemma new_calls_run_expectation_configuration_builders_Cons:
  "new_calls st (snd (run_expectation_configuration_builders self d vs ((j, b) # jbs) acc st))
     = new_calls st (snd (call_build_expectation_configuration self d vs j b st))
       @ (case fst (call_build_expectation_configuration self d vs j b st) of
            Inl e \<Rightarrow> []
          | Inr cfg \<Rightarrow>
              new_calls (snd (call_build_expectation_configuration self d vs j b st))
                (snd (run_expectation_configuration_builders self d vs jbs (acc @ [cfg])
                       (snd (call_build_expectation_configuration self d vs j b st)))))"
  using new_calls_append [OF grows_call_build_expectation_configuration [of st self d vs j b]
      grows_run_expectation_configuration_builders [of _ self d vs jbs]]
  by (auto split: prod.splits sum.splits)

lemma new_calls_generate_domain:
  "new_calls st (snd (generate_domain self vs d acc st))
     = (NewParameterContainer d, None)
       # (let pc = fst (new_parameter_container self d st);
              st1 = snd (new_parameter_container self d st)
          in case self_parameter_builders self of
               None \<Rightarrow> []
             | Some pbs \<Rightarrow>
                (let r = fst (run_parameter_builders self pc d vs (enumerate 0 pbs) st1);
                     st2 = snd (run_parameter_builders self pc d vs (enumerate 0 pbs) st1)
                 in new_calls st1 st2
                    @ (case r of
                         Some e \<Rightarrow> []
                       | None \<Rightarrow>
                          (case self_expectation_configuration_builders self of
                             None \<Rightarrow> []
                           | Some ecbs \<Rightarrow>
                               new_calls st2
                                 (snd (run_expectation_configuration_builders self d vs
                                        (enumerate 0 ecbs) acc st2))))))"
proof -
  let ?pc = "fst (new_parameter_container self d st)"
  let ?st1 = "snd (new_parameter_container self d st)"
  have g1: "grows st ?st1" by (rule grows_new_parameter_container)
  have c1: "new_calls st ?st1 = [(NewParameterContainer d, None)]"
    by (rule new_calls_new_parameter_container)
  show ?thesis
  proof (cases "self_parameter_builders self")
    case None
    then show ?thesis using c1 by (simp add: generate_domain_def split_def Let_def)
  next
    case (Some pbs)
    let ?run = "run_parameter_builders self ?pc d vs (enumerate 0 pbs) ?st1"
    have g2: "grows ?st1 (snd ?run)" by (rule grows_run_parameter_builders)
    have c2: "new_calls st (snd ?run) = (NewParameterContainer d, None) # new_calls ?st1 (snd ?run)"
      using new_calls_append [OF g1 g2] c1 by simp
    show ?thesis
    proof (cases "fst ?run")
      case (Some e)
      then show ?thesis using \<open>self_parameter_builders self = Some pbs\<close> c2
        by (simp add: generate_domain_def split_def Let_def)
    next
      case None
      note rNone = None
      show ?thesis
      proof (cases "self_expectation_configuration_builders self")
        case None
        then show ?thesis using \<open>self_parameter_builders self = Some pbs\<close> c2 rNone
          by (simp add: generate_domain_def split_def Let_def)
      next
        case (Some ecbs)
        let ?run3 = "run_expectation_configuration_builders self d vs (enumerate 0 ecbs) acc
                       (snd ?run)"
        have g3: "grows (snd ?run) (snd ?run3)"
          by (rule grows_run_expectation_configuration_builders)
        have "new_calls st (snd ?run3) = new_calls st (snd ?run) @ new_calls (snd ?run) (snd ?run3)"
          by (rule new_calls_append [OF grows_trans [OF g1 g2] g3])
        then show ?thesis using \<open>self_parameter_builders self = Some pbs\<close> c2 rNone Some
          by (simp add: generate_domain_def split_def Let_def)
      qed
    qed
  qed
qed

lemma new_calls_generate_domains_Cons:
  "new_calls st (snd (generate_domains self vs (d # ds) acc st))
     = new_calls st (snd (generate_domain self vs d acc st))
       @ (case fst (generate_domain self vs d acc st) of
            Inl e \<Rightarrow> []
          | Inr acc' \<Rightarrow>
              new_calls (snd (generate_domain self vs d acc st))
                (snd (generate_domains self vs ds acc' (snd (generate_domain self vs d acc st)))))"
  using new_calls_append [OF grows_generate_domain [of st self vs d acc]
      grows_generate_domains [of _ self vs ds]]
  by (auto split: prod.splits sum.splits)

lemma generate_unfold:
  "generate self vars st =
     (case self_domain_builder self of
        None \<Rightarrow> (Inl AttributeError, st)
      | Some db \<Rightarrow>
         (case fst (db (resolve_variables self vars) (backend st)) of
            Inl e \<Rightarrow> (Inl e, after_get_domains self vars db st)
          | Inr ds \<Rightarrow> generate_domains self (resolve_variables self vars) ds []
                       (after_get_domains self vars db st)))"
  by (simp add: generate_def after_get_domains_def Let_def split_def
        split: option.splits sum.splits)

lemma new_calls_after_get_domains:
  "new_calls st (after_get_domains self vars db st)
     = [(GetDomains (resolve_variables self vars),
         case fst (db (resolve_variables self vars) (backend st)) of
           Inl e \<Rightarrow> Some e | Inr _ \<Rightarrow> None)]"
  by (simp add: after_get_domains_def record_call_def new_calls_def Let_def)

lemma grows_after_get_domains: "grows st (after_get_domains self vars db st)"
  by (simp add: after_get_domains_def record_call_def grows_def Let_def)

lemma new_calls_generate:
  "new_calls st (snd (generate self vars st)) =
     (case self_domain_builder self of
        None \<Rightarrow> []
      | Some db \<Rightarrow>
         new_calls st (after_get_domains self vars db st)
         @ (case fst (db (resolve_variables self vars) (backend st)) of
              Inl e \<Rightarrow> []
            | Inr ds \<Rightarrow>
                new_calls (after_get_domains self vars db st)
                  (snd (generate_domains self (resolve_variables self vars) ds []
                         (after_get_domains self vars db st)))))"
  using new_calls_append [OF grows_after_get_domains [of st self vars]
      grows_generate_domains [of _ self "resolve_variables self vars" _ "[]"]]
  by (auto simp: generate_unfold split: option.splits sum.splits)

lemma passes_simps [simp]:
  "passes vs []"
  "passes vs (cs @ cs') \<longleftrightarrow> passes vs cs \<and> passes vs cs'"
  "passes vs ((c, x) # cs) \<longleftrightarrow>
     (call_variables c = None \<or> call_variables c = Some vs) \<and> passes vs cs"
  by (simp_all add: passes_def)

declare run_parameter_builders.simps(2) [simp del]
  run_expectation_configuration_builders.simps(2) [simp del]
  generate_domains.simps(2) [simp del]

subsection \<open>Variables\<close>

lemma passes_call_build_parameters:
  "passes vs (new_calls st (snd (call_build_parameters self pc d vs i pb st)))"
  using new_calls_call_build_parameters [of st self pc d vs i pb] by auto

lemma passes_call_build_expectation_configuration:
  "passes vs (new_calls st (snd (call_build_expectation_configuration self d vs j b st)))"
  using new_calls_call_build_expectation_configuration [of st self d vs j b] by auto

lemma passes_run_parameter_builders:
  "passes vs (new_calls st (snd (run_parameter_builders self pc d vs ips st)))"
proof (induction ips arbitrary: st)
  case Nil
  show ?case by simp
next
  case (Cons ip ips)
  show ?case
    by (cases ip)
       (simp add: new_calls_run_parameter_builders_Cons passes_call_build_parameters Cons.IH
          split: option.splits)
qed

lemma passes_run_expectation_configuration_builders:
  "passes vs (new_calls st (snd (run_expectation_configuration_builders self d vs jbs acc st)))"
proof (induction jbs arbitrary: st acc)
  case Nil
  show ?case by simp
next
  case (Cons jb jbs)
  show ?case
    by (cases jb)
       (simp add: new_calls_run_expectation_configuration_builders_Cons
          passes_call_build_expectation_configuration Cons.IH split: sum.splits)
qed

lemma passes_generate_domain:
  "passes vs (new_calls st (snd (generate_domain self vs d acc st)))"
  by (simp add: new_calls_generate_domain Let_def passes_run_parameter_builders
        passes_run_expectation_configuration_builders split: option.splits)

lemma passes_generate_domains:
  "passes vs (new_calls st (snd (generate_domains self vs ds acc st)))"
proof (induction ds arbitrary: st acc)
  case Nil
  show ?case by simp
next
  case (Cons d ds)
  show ?case
    by (simp add: new_calls_generate_domains_Cons passes_generate_domain Cons.IH
          split: sum.splits)
qed

text \<open>
  C8: when \<^verbatim>\<open>generate\<close> is called without variables, or with \<^verbatim>\<open>None\<close>, the domain
  builder and every parameter builder and configuration builder are passed the variables
  of the profiler that owns the Rule; when the caller supplies variables, they are passed
  those.
\<close>

theorem generate_variables:
  "passes (variables (self_rule_based_profiler self))
     (new_calls st (snd (generate self None st)))
   \<and> passes (Some v) (new_calls st (snd (generate self (Some v) st)))"
  by (simp add: new_calls_generate new_calls_after_get_domains passes_generate_domains
        resolve_variables_def split: option.splits sum.splits)

theorem generate_variables_witness:
  "passes None
     (new_calls (snd example_rule) (snd (generate (fst example_rule) None (snd example_rule))))
   \<and> passes (Some (ParameterContainer None))
       (new_calls (snd example_rule)
          (snd (generate (fst example_rule) (Some (ParameterContainer None))
                 (snd example_rule))))"
proof -
  have p: "variables (self_rule_based_profiler (fst example_rule)) = None"
    by (simp add: example_rule_def Rule_init_def new_dict_def Let_def)
  show ?thesis
    using generate_variables [of "fst example_rule" "snd example_rule" "ParameterContainer None"]
    unfolding p .
qed

subsection \<open>Order of the calls\<close>

lemma events_simps [simp]:
  "events [] = []"
  "events (cs @ cs') = events cs @ events cs'"
  "events ((c, x) # cs) = event_of c # events cs"
  by (simp_all add: events_def)

lemma events_call_build_parameters:
  "events (new_calls st (snd (call_build_parameters self pc d vs i pb st)))
     = [AtBuildParameters i d]"
  using new_calls_call_build_parameters [of st self pc d vs i pb] by auto

lemma events_call_build_expectation_configuration:
  "events (new_calls st (snd (call_build_expectation_configuration self d vs j b st)))
     = [AtBuildExpectationConfiguration j d]"
  using new_calls_call_build_expectation_configuration [of st self d vs j b] by auto

lemma fst_run_parameter_builders_Cons:
  "fst (run_parameter_builders self pc d vs ((i, pb) # ips) st)
     = (case fst (call_build_parameters self pc d vs i pb st) of
          Some e \<Rightarrow> Some e
        | None \<Rightarrow> fst (run_parameter_builders self pc d vs ips
                         (snd (call_build_parameters self pc d vs i pb st))))"
  by (cases "call_build_parameters self pc d vs i pb st")
     (simp add: run_parameter_builders.simps(2) split: option.splits)

lemma fst_run_expectation_configuration_builders_Cons:
  "fst (run_expectation_configuration_builders self d vs ((j, b) # jbs) acc st)
     = (case fst (call_build_expectation_configuration self d vs j b st) of
          Inl e \<Rightarrow> Inl e
        | Inr cfg \<Rightarrow>
            fst (run_expectation_configuration_builders self d vs jbs (acc @ [cfg])
                   (snd (call_build_expectation_configuration self d vs j b st))))"
  by (cases "call_build_expectation_configuration self d vs j b st")
     (simp add: run_expectation_configuration_builders.simps(2) split: sum.splits)

lemma fst_generate_domains_Cons:
  "fst (generate_domains self vs (d # ds) acc st)
     = (case fst (generate_domain self vs d acc st) of
          Inl e \<Rightarrow> Inl e
        | Inr acc' \<Rightarrow>
            fst (generate_domains self vs ds acc' (snd (generate_domain self vs d acc st))))"
  by (cases "generate_domain self vs d acc st")
     (simp add: generate_domains.simps(2) split: sum.splits)

lemma events_run_parameter_builders:
  "prefix (events (new_calls st (snd (run_parameter_builders self pc d vs ips st))))
          (map (\<lambda>(i, pb). AtBuildParameters i d) ips)
   \<and> (fst (run_parameter_builders self pc d vs ips st) = None \<longrightarrow>
        events (new_calls st (snd (run_parameter_builders self pc d vs ips st)))
          = map (\<lambda>(i, pb). AtBuildParameters i d) ips)"
proof (induction ips arbitrary: st)
  case Nil
  show ?case by simp
next
  case (Cons ip ips)
  obtain i pb where ip: "ip = (i, pb)" by (cases ip)
  show ?case
    using Cons.IH [of "snd (call_build_parameters self pc d vs i pb st)"]
    by (simp add: ip new_calls_run_parameter_builders_Cons fst_run_parameter_builders_Cons
          events_call_build_parameters split: option.splits)
qed

lemma events_run_expectation_configuration_builders:
  "prefix (events (new_calls st
             (snd (run_expectation_configuration_builders self d vs jbs acc st))))
          (map (\<lambda>(j, b). AtBuildExpectationConfiguration j d) jbs)
   \<and> (isl (fst (run_expectation_configuration_builders self d vs jbs acc st)) \<or>
        events (new_calls st (snd (run_expectation_configuration_builders self d vs jbs acc st)))
          = map (\<lambda>(j, b). AtBuildExpectationConfiguration j d) jbs)"
proof (induction jbs arbitrary: st acc)
  case Nil
  show ?case by simp
next
  case (Cons jb jbs)
  obtain j b where jb: "jb = (j, b)" by (cases jb)
  let ?step = "call_build_expectation_configuration self d vs j b st"
  show ?case
  proof (cases "fst ?step")
    case (Inr cfg)
    then show ?thesis
      using Cons.IH [of "snd ?step" "acc @ [cfg]"]
      by (simp add: jb new_calls_run_expectation_configuration_builders_Cons
            fst_run_expectation_configuration_builders_Cons
            events_call_build_expectation_configuration)
  next
    case (Inl e)
    then show ?thesis
      by (simp add: jb new_calls_run_expectation_configuration_builders_Cons
            fst_run_expectation_configuration_builders_Cons
            events_call_build_expectation_configuration)
  qed
qed

lemma map_enumerate_index:
  "map (\<lambda>(i, x). f i) (enumerate 0 xs) = map f [0..<length xs]"
proof -
  have "map (\<lambda>(i, x). f i) (enumerate 0 xs) = map (f \<circ> fst) (enumerate 0 xs)"
    by (rule map_cong) auto
  also have "\<dots> = map f (map fst (enumerate 0 xs))" by (simp only: map_map)
  also have "\<dots> = map f [0..<length xs]" by (simp only: map_fst_enumerate add_0)
  finally show ?thesis .
qed

lemma generate_domain_fst:
  "fst (generate_domain self vs d acc st) =
     (case self_parameter_builders self of
        None \<Rightarrow> Inl TypeError
      | Some pbs \<Rightarrow>
         (case fst (run_parameter_builders self (fst (new_parameter_container self d st)) d vs
                     (enumerate 0 pbs) (snd (new_parameter_container self d st))) of
            Some e \<Rightarrow> Inl e
          | None \<Rightarrow>
             (case self_expectation_configuration_builders self of
                None \<Rightarrow> Inl TypeError
              | Some ecbs \<Rightarrow>
                 fst (run_expectation_configuration_builders self d vs (enumerate 0 ecbs) acc
                   (snd (run_parameter_builders self (fst (new_parameter_container self d st))
                          d vs (enumerate 0 pbs) (snd (new_parameter_container self d st))))))))"
  by (simp add: generate_domain_def split_def Let_def split: option.splits)

lemma events_generate_domain:
  "prefix (events (new_calls st (snd (generate_domain self vs d acc st))))
          (domain_schedule (length (builders (self_parameter_builders self)))
             (length (builders (self_expectation_configuration_builders self))) d)
   \<and> (isl (fst (generate_domain self vs d acc st)) \<or>
        events (new_calls st (snd (generate_domain self vs d acc st)))
          = domain_schedule (length (builders (self_parameter_builders self)))
             (length (builders (self_expectation_configuration_builders self))) d)"
proof (cases "self_parameter_builders self")
  case None
  then show ?thesis
    by (simp add: new_calls_generate_domain generate_domain_fst domain_schedule_def)
next
  case (Some pbs)
  note pbs = Some
  let ?pc = "fst (new_parameter_container self d st)"
  let ?st1 = "snd (new_parameter_container self d st)"
  let ?run = "run_parameter_builders self ?pc d vs (enumerate 0 pbs) ?st1"
  have P: "prefix (events (new_calls ?st1 (snd ?run)))
             (map (\<lambda>i. AtBuildParameters i d) [0..<length pbs])"
    and Q: "fst ?run = None \<Longrightarrow>
            events (new_calls ?st1 (snd ?run)) = map (\<lambda>i. AtBuildParameters i d) [0..<length pbs]"
    using events_run_parameter_builders [of ?st1 self ?pc d vs "enumerate 0 pbs"]
    by (simp_all add: map_enumerate_index)
  show ?thesis
  proof (cases "fst ?run")
    case (Some e)
    then show ?thesis using pbs P
      by (simp add: new_calls_generate_domain generate_domain_fst domain_schedule_def
            builders_def Let_def prefix_def) auto
  next
    case None
    note ok = None
    show ?thesis
    proof (cases "self_expectation_configuration_builders self")
      case None
      then show ?thesis using pbs ok Q
        by (simp add: new_calls_generate_domain generate_domain_fst domain_schedule_def
              builders_def Let_def)
    next
      case (Some ecbs)
      let ?run3 = "run_expectation_configuration_builders self d vs (enumerate 0 ecbs) acc
                     (snd ?run)"
      have "prefix (events (new_calls (snd ?run) (snd ?run3)))
              (map (\<lambda>j. AtBuildExpectationConfiguration j d) [0..<length ecbs])
          \<and> (isl (fst ?run3) \<or> events (new_calls (snd ?run) (snd ?run3))
               = map (\<lambda>j. AtBuildExpectationConfiguration j d) [0..<length ecbs])"
        using events_run_expectation_configuration_builders
          [of "snd ?run" self d vs "enumerate 0 ecbs" acc]
        by (simp add: map_enumerate_index)
      then show ?thesis using pbs ok Q Some
        by (simp add: new_calls_generate_domain generate_domain_fst domain_schedule_def
              builders_def Let_def)
    qed
  qed
qed

lemma events_generate_domains:
  "prefix (events (new_calls st (snd (generate_domains self vs ds acc st))))
          (concat (map (domain_schedule (length (builders (self_parameter_builders self)))
             (length (builders (self_expectation_configuration_builders self)))) ds))
   \<and> (isl (fst (generate_domains self vs ds acc st)) \<or>
        events (new_calls st (snd (generate_domains self vs ds acc st)))
          = concat (map (domain_schedule (length (builders (self_parameter_builders self)))
             (length (builders (self_expectation_configuration_builders self)))) ds))"
proof (induction ds arbitrary: st acc)
  case Nil
  show ?case by simp
next
  case (Cons d ds)
  let ?step = "generate_domain self vs d acc st"
  show ?case
  proof (cases "fst ?step")
    case (Inl e)
    then show ?thesis using events_generate_domain [of st self vs d acc]
      by (simp add: new_calls_generate_domains_Cons fst_generate_domains_Cons)
  next
    case (Inr acc')
    then show ?thesis
      using events_generate_domain [of st self vs d acc] Cons.IH [of "snd ?step" acc']
      by (simp add: new_calls_generate_domains_Cons fst_generate_domains_Cons)
  qed
qed

text \<open>
  C5: the calls of one \<^verbatim>\<open>generate\<close> are a prefix of the schedule, and the whole schedule
  when \<^verbatim>\<open>generate\<close> returns a list. In the schedule every parameter builder of the Rule
  is called for a domain, in the order of the list, before any expectation configuration
  builder is called for that domain; so no configuration builder is ever called for a
  domain while a parameter builder has yet to run for it.
\<close>

theorem generate_schedule:
  assumes "self_domain_builder self = Some db"
    and "fst (db (resolve_variables self vars) (backend st)) = Inr ds"
  shows "prefix (events (new_calls st (snd (generate self vars st))))
           (schedule (length (builders (self_parameter_builders self)))
              (length (builders (self_expectation_configuration_builders self))) ds)
         \<and> (isl (fst (generate self vars st)) \<or>
              events (new_calls st (snd (generate self vars st)))
                = schedule (length (builders (self_parameter_builders self)))
                    (length (builders (self_expectation_configuration_builders self))) ds)"
proof -
  let ?st1 = "after_get_domains self vars db st"
  let ?run = "generate_domains self (resolve_variables self vars) ds [] ?st1"
  have A: "events (new_calls st (snd (generate self vars st)))
             = AtGetDomains # events (new_calls ?st1 (snd ?run))"
    using assms by (simp add: new_calls_generate new_calls_after_get_domains)
  have B: "fst (generate self vars st) = fst ?run"
    using assms by (simp add: generate_unfold)
  show ?thesis
    using events_generate_domains [of ?st1 self "resolve_variables self vars" ds "[]"]
    by (simp add: A B schedule_def)
qed

theorem generate_schedule_witness:
  "self_domain_builder (fst example_rule) = Some two_columns
   \<and> events (new_calls (snd example_rule) (snd (generate (fst example_rule) None (snd example_rule))))
       = [AtGetDomains,
          AtNewParameterContainer colA, AtBuildParameters 0 colA,
          AtBuildExpectationConfiguration 0 colA,
          AtNewParameterContainer colB, AtBuildParameters 0 colB,
          AtBuildExpectationConfiguration 0 colB]"
proof -
  have h1: "self_domain_builder (fst example_rule) = Some two_columns"
    by (simp add: example_rule_def Rule_init_def new_dict_def Let_def)
  have h2: "fst (two_columns (resolve_variables (fst example_rule) None)
              (backend (snd example_rule))) = Inr [colA, colB]"
    by (simp add: two_columns_def)
  have ok: "\<not> isl (fst (generate (fst example_rule) None (snd example_rule)))"
    using example_run_result by (simp add: example_run_def)
  have n: "builders (self_parameter_builders (fst example_rule)) = [row_count]"
    and m: "builders (self_expectation_configuration_builders (fst example_rule))
              = [count_domains]"
    by (simp_all add: builders_def example_rule_def Rule_init_def new_dict_def Let_def)
  show ?thesis using h1 ok generate_schedule [OF h1 h2]
    by (simp add: n m schedule_def domain_schedule_def)
qed

subsection \<open>The list returned\<close>

lemma call_build_expectation_configuration_built_by:
  "fst (call_build_expectation_configuration self d vs j b st) = Inr cfg \<Longrightarrow> built_by d vs b cfg"
  by (auto simp: call_build_expectation_configuration_def built_by_def split_def Let_def)

lemma run_expectation_configuration_builders_result:
  "fst (run_expectation_configuration_builders self d vs jbs acc st) = Inr acc'
   \<Longrightarrow> \<exists>chunk. acc' = acc @ chunk \<and> list_all2 (built_by d vs) (map snd jbs) chunk"
proof (induction jbs arbitrary: st acc)
  case Nil
  then show ?case by simp
next
  case (Cons jb jbs)
  obtain j b where jb: "jb = (j, b)" by (cases jb)
  let ?step = "call_build_expectation_configuration self d vs j b st"
  from Cons.prems obtain cfg where cfg: "fst ?step = Inr cfg"
    and rest: "fst (run_expectation_configuration_builders self d vs jbs (acc @ [cfg]) (snd ?step))
                 = Inr acc'"
    by (auto simp: jb fst_run_expectation_configuration_builders_Cons split: sum.splits)
  from Cons.IH [OF rest] obtain chunk where
    "acc' = (acc @ [cfg]) @ chunk" "list_all2 (built_by d vs) (map snd jbs) chunk" by blast
  with call_build_expectation_configuration_built_by [OF cfg]
  have "acc' = acc @ (cfg # chunk) \<and> list_all2 (built_by d vs) (map snd (jb # jbs)) (cfg # chunk)"
    by (simp add: jb)
  then show ?case by blast
qed

lemma generate_domain_result:
  assumes "fst (generate_domain self vs d acc st) = Inr acc'"
  shows "\<exists>chunk. acc' = acc @ chunk
           \<and> list_all2 (built_by d vs)
                (builders (self_expectation_configuration_builders self)) chunk"
proof -
  from assms obtain pbs ecbs st2 where
    ecbs: "self_expectation_configuration_builders self = Some ecbs"
    and run: "fst (run_expectation_configuration_builders self d vs (enumerate 0 ecbs) acc st2)
                = Inr acc'"
    by (auto simp: generate_domain_fst split: option.splits)
  from run_expectation_configuration_builders_result [OF run] ecbs show ?thesis
    by (simp add: builders_def)
qed

lemma generate_domains_result:
  "fst (generate_domains self vs ds acc st) = Inr acc'
   \<Longrightarrow> \<exists>chunks. acc' = acc @ concat chunks
         \<and> list_all2 (\<lambda>d chunk. list_all2 (built_by d vs)
               (builders (self_expectation_configuration_builders self)) chunk) ds chunks"
proof (induction ds arbitrary: st acc)
  case Nil
  then show ?case by simp
next
  case (Cons d ds)
  let ?step = "generate_domain self vs d acc st"
  from Cons.prems obtain acc1 where a1: "fst ?step = Inr acc1"
    and rest: "fst (generate_domains self vs ds acc1 (snd ?step)) = Inr acc'"
    by (auto simp: fst_generate_domains_Cons split: sum.splits)
  from generate_domain_result [OF a1] obtain chunk where
    c: "acc1 = acc @ chunk"
       "list_all2 (built_by d vs) (builders (self_expectation_configuration_builders self)) chunk"
    by blast
  from Cons.IH [OF rest] obtain chunks where
    cs: "acc' = acc1 @ concat chunks"
        "list_all2 (\<lambda>d chunk. list_all2 (built_by d vs)
               (builders (self_expectation_configuration_builders self)) chunk) ds chunks"
    by blast
  from c cs have "acc' = acc @ concat (chunk # chunks)
     \<and> list_all2 (\<lambda>d chunk. list_all2 (built_by d vs)
               (builders (self_expectation_configuration_builders self)) chunk)
          (d # ds) (chunk # chunks)"
    by simp
  then show ?case by blast
qed

lemma length_concat_chunks:
  "list_all2 (\<lambda>d chunk. list_all2 (P d) bs chunk) ds chunks
   \<Longrightarrow> length (concat chunks) = length ds * length bs"
  by (induction ds chunks rule: list_all2_induct) (auto dest: list_all2_lengthD)

text \<open>
  C2: the list a successful \<^verbatim>\<open>generate\<close> returns is the concatenation, over the
  domains in the order the domain builder returned them, of one configuration from each
  expectation configuration builder in the order of the Rule's list; its length is the
  number of domains times the number of expectation configuration builders.
\<close>

theorem generate_result:
  assumes "fst (generate self vars st) = Inr cfgs"
  shows "\<exists>db ds chunks.
           self_domain_builder self = Some db
           \<and> fst (db (resolve_variables self vars) (backend st)) = Inr ds
           \<and> cfgs = concat chunks
           \<and> list_all2 (\<lambda>d chunk. list_all2 (built_by d (resolve_variables self vars))
                 (builders (self_expectation_configuration_builders self)) chunk) ds chunks
           \<and> length cfgs
               = length ds * length (builders (self_expectation_configuration_builders self))"
proof -
  from assms obtain db ds where db: "self_domain_builder self = Some db"
    and ds: "fst (db (resolve_variables self vars) (backend st)) = Inr ds"
    and run: "fst (generate_domains self (resolve_variables self vars) ds []
                (after_get_domains self vars db st)) = Inr cfgs"
    by (auto simp: generate_unfold split: option.splits sum.splits)
  from generate_domains_result [OF run] obtain chunks where
    c: "cfgs = concat chunks"
       "list_all2 (\<lambda>d chunk. list_all2 (built_by d (resolve_variables self vars))
                 (builders (self_expectation_configuration_builders self)) chunk) ds chunks"
    by auto
  from length_concat_chunks [OF c(2)] c db ds show ?thesis by blast
qed

theorem generate_result_witness:
  "fst (generate (fst example_rule) None (snd example_rule)) =
     Inr [\<lparr>expectation_type = ''expect_column_values_to_not_be_null'',
            kwargs = [(''domains'', 1)]\<rparr>,
          \<lparr>expectation_type = ''expect_column_values_to_not_be_null'',
            kwargs = [(''domains'', 2)]\<rparr>]
   \<and> (\<exists>db ds chunks.
           self_domain_builder (fst example_rule) = Some db
           \<and> fst (db (resolve_variables (fst example_rule) None) (backend (snd example_rule)))
               = Inr ds
           \<and> [\<lparr>expectation_type = ''expect_column_values_to_not_be_null'',
                  kwargs = [(''domains'', 1)]\<rparr>,
                \<lparr>expectation_type = ''expect_column_values_to_not_be_null'',
                  kwargs = [(''domains'', 2::nat)]\<rparr>] = concat chunks
           \<and> list_all2 (\<lambda>d chunk. list_all2
                 (built_by d (resolve_variables (fst example_rule) None))
                 (builders (self_expectation_configuration_builders (fst example_rule))) chunk)
                 ds chunks
           \<and> length [\<lparr>expectation_type = ''expect_column_values_to_not_be_null'',
                  kwargs = [(''domains'', 1)]\<rparr>,
                \<lparr>expectation_type = ''expect_column_values_to_not_be_null'',
                  kwargs = [(''domains'', 2::nat)]\<rparr>]
               = length ds * length (builders
                   (self_expectation_configuration_builders (fst example_rule))))"
proof -
  note h = example_run_result [unfolded example_run_def]
  show ?thesis by (rule conjI [OF h generate_result [OF h]])
qed

subsection \<open>Builders that are \<^verbatim>\<open>None\<close>\<close>

text \<open>
  C10 as stated fails: a Rule constructed without parameter builders and without
  expectation configuration builders, whose domain builder finds no domain, returns the
  empty list; \<^verbatim>\<open>generate\<close> does not raise. The builder lists are iterated only inside
  the iteration over the domains.
\<close>

theorem generate_no_builders_counterexample:
  "self_parameter_builders (fst default_rule) = None
   \<and> self_expectation_configuration_builders (fst default_rule) = None
   \<and> fst (generate (fst default_rule) None (snd default_rule)) = Inr []"
  by (simp add: default_rule_def Rule_init_def new_dict_def empty_state_def no_domains_def
        generate_def resolve_variables_def record_call_def Let_def)

text \<open>
  C10, amended: with no domain builder every \<^verbatim>\<open>generate\<close> raises \<^verbatim>\<open>AttributeError\<close>;
  with a domain builder that returns at least one domain, \<^verbatim>\<open>generate\<close> raises
  \<^verbatim>\<open>TypeError\<close> when the parameter builders are \<^verbatim>\<open>None\<close>, and raises when the
  expectation configuration builders are \<^verbatim>\<open>None\<close>; with a domain builder that returns no
  domain it returns the empty list, whatever the two lists are.
\<close>

theorem generate_none_builders:
  "(self_domain_builder self = None \<longrightarrow> generate self vars st = (Inl AttributeError, st))
   \<and> (self_domain_builder self = Some db
        \<and> fst (db (resolve_variables self vars) (backend st)) = Inr (d # ds)
        \<and> self_parameter_builders self = None
      \<longrightarrow> fst (generate self vars st) = Inl TypeError)
   \<and> (self_domain_builder self = Some db
        \<and> fst (db (resolve_variables self vars) (backend st)) = Inr (d # ds)
        \<and> self_expectation_configuration_builders self = None
      \<longrightarrow> isl (fst (generate self vars st)))
   \<and> (self_domain_builder self = Some db
        \<and> fst (db (resolve_variables self vars) (backend st)) = Inr []
      \<longrightarrow> fst (generate self vars st) = Inr [])"
  by (auto simp: generate_unfold fst_generate_domains_Cons generate_domain_fst
        split: option.splits sum.splits)

theorem generate_none_builders_witness:
  "generate (fst bare_rule) None (snd bare_rule) = (Inl AttributeError, snd bare_rule)
   \<and> fst (generate (fst no_builders_rule) None (snd no_builders_rule)) = Inl TypeError"
proof -
  have b: "self_domain_builder (fst bare_rule) = None"
    by (simp add: bare_rule_def Rule_init_def new_dict_def Let_def)
  have n: "self_domain_builder (fst no_builders_rule) = Some two_columns"
    "self_parameter_builders (fst no_builders_rule) = None"
    by (simp_all add: no_builders_rule_def Rule_init_def new_dict_def Let_def)
  have d: "fst (two_columns (resolve_variables (fst no_builders_rule) None)
             (backend (snd no_builders_rule))) = Inr (colA # [colB])"
    by (simp add: two_columns_def)
  show ?thesis
    using b n d
      generate_none_builders [where self = "fst bare_rule" and vars = None
        and st = "snd bare_rule"]
      generate_none_builders [where self = "fst no_builders_rule" and vars = None
        and st = "snd no_builders_rule" and db = two_columns and d = colA and ds = "[colB]"]
    by simp
qed

subsection \<open>The parameter map during a run\<close>

lemma map_of_view:
  "map_of (view st x) k = map_option (containers st) (map_of (dicts st x) k)"
  by (simp add: view_def split_def map_of_map [unfolded split_def comp_def]) 

lemma distinct_snd_update:
  "distinct (map snd al) \<Longrightarrow> a \<notin> snd ` set al \<Longrightarrow> distinct (map snd (AList.update k a al))"
proof (induction al)
  case Nil
  then show ?case by simp
next
  case (Cons p al)
  then show ?case using set_update_subset [of k a al] by (cases p) force
qed

lemma view_update_fresh:
  "a \<notin> snd ` set al \<Longrightarrow>
   map (\<lambda>(k, b). (k, (f(a := v)) b)) (AList.update k a al)
     = AList.update k v (map (\<lambda>(k, b). (k, f b)) al)"
  by (induction al) (force simp: rev_image_eqI)+

lemma view_write:
  "distinct (map snd al) \<Longrightarrow> map_of al k = Some pc \<Longrightarrow>
   map (\<lambda>(k, b). (k, (f(pc := v)) b)) al = AList.update k v (map (\<lambda>(k, b). (k, f b)) al)"
proof (induction al)
  case Nil
  then show ?case by simp
next
  case (Cons p al)
  obtain k' b where p: "p = (k', b)" by (cases p)
  show ?case
  proof (cases "k' = k")
    case True
    with Cons.prems p have b: "b = pc" and notin: "pc \<notin> snd ` set al" by auto
    have "map (\<lambda>(k, b). (k, (f(pc := v)) b)) al = map (\<lambda>(k, b). (k, f b)) al"
      using notin by (intro map_cong) (auto simp: rev_image_eqI)
    then show ?thesis using True p b by simp
  next
    case False
    with Cons.prems p have m: "map_of al k = Some pc" by simp
    then have "pc \<in> snd ` set al" by (force dest: map_of_SomeD)
    with Cons.prems p have "b \<noteq> pc" by auto
    then show ?thesis using False p Cons.IH [OF _ m] Cons.prems by simp
  qed
qed

lemma new_parameter_container_sem:
  assumes "wf self st"
  shows "wf self (snd (new_parameter_container self d st))"
    and "view (snd (new_parameter_container self d st)) (self_parameters self)
           = AList.update (domain_id d) (ParameterContainer None) (view st (self_parameters self))"
    and "map_of (dicts (snd (new_parameter_container self d st)) (self_parameters self))
           (domain_id d) = Some (fst (new_parameter_container self d st))"
    and "backend (snd (new_parameter_container self d st)) = backend st"
proof -
  let ?x = "self_parameters self"
  let ?pc = "next_addr st"
  have fresh: "?pc \<notin> snd ` set (dicts st ?x)"
    using assms by (auto simp: wf_def list_all_iff)
  have sub: "set (AList.update (domain_id d) ?pc (dicts st ?x))
               \<subseteq> insert (domain_id d, ?pc) (set (dicts st ?x))"
    by (rule set_update_subset)
  show "wf self (snd (new_parameter_container self d st))"
    using assms sub distinct_snd_update [OF _ fresh, of "domain_id d"]
    by (auto simp: wf_def list_all_iff new_parameter_container_def new_container_def
          setitem_def record_call_def distinct_update less_Suc_eq)
  show "view (snd (new_parameter_container self d st)) ?x
           = AList.update (domain_id d) (ParameterContainer None) (view st ?x)"
    using view_update_fresh [OF fresh, of "containers st" "ParameterContainer None" "domain_id d"]
    by (simp add: view_def new_parameter_container_def new_container_def setitem_def
          record_call_def)
  show "map_of (dicts (snd (new_parameter_container self d st)) ?x) (domain_id d)
          = Some (fst (new_parameter_container self d st))"
    by (simp add: new_parameter_container_def new_container_def setitem_def record_call_def
          update_conv')
  show "backend (snd (new_parameter_container self d st)) = backend st"
    by (simp add: new_parameter_container_def new_container_def setitem_def record_call_def)
qed

lemma call_build_parameters_sem:
  fixes self :: "('n, 'w) Rule" and pb :: "('n, 'w) ParameterBuilder"
    and d :: Domain and vs :: "'n variables"
  assumes "wf self st" and "map_of (dicts st (self_parameters self)) k = Some pc"
  defines "r \<equiv> pb (containers st pc) d vs (view st (self_parameters self)) (backend st)"
  shows "fst (call_build_parameters self pc d vs i pb st) = fst (snd r)"
    and "new_calls st (snd (call_build_parameters self pc d vs i pb st))
           = [(BuildParameters i (containers st pc) d vs (view st (self_parameters self)) (fst r),
               fst (snd r))]"
    and "view (snd (call_build_parameters self pc d vs i pb st)) (self_parameters self)
           = AList.update k (fst r) (view st (self_parameters self))"
    and "dicts (snd (call_build_parameters self pc d vs i pb st)) (self_parameters self)
           = dicts st (self_parameters self)"
    and "backend (snd (call_build_parameters self pc d vs i pb st)) = snd (snd r)"
    and "wf self (snd (call_build_parameters self pc d vs i pb st))"
proof -
  let ?x = "self_parameters self"
  let ?st1 = "snd (parameters self st)"
  have x: "?x < next_addr st" using assms(1) by (simp add: wf_def)
  have "(k, pc) \<in> set (dicts st ?x)" using assms(2) by (rule map_of_SomeD)
  then have pc: "pc < next_addr st" using assms(1) by (force simp: wf_def list_all_iff)
  have c1: "containers ?st1 pc = containers st pc" by (rule parameters_old_containers [OF pc])
  have v1: "view ?st1 (fst (parameters self st)) = view st ?x" by (rule parameters_view [OF assms(1)])
  have d1: "dicts ?st1 ?x = dicts st ?x" by (rule parameters_old_dicts [OF x])
  have b1: "backend ?st1 = backend st" by (simp add: parameters_frame(2))
  have w1: "wf self ?st1" by (rule parameters_wf [OF assms(1)])
  have vx: "view ?st1 ?x = view st ?x" by (rule parameters_self_view [OF assms(1)])
  show "fst (call_build_parameters self pc d vs i pb st) = fst (snd r)"
    by (simp add: call_build_parameters_def Let_def split_def c1 v1 b1 r_def)
  show "new_calls st (snd (call_build_parameters self pc d vs i pb st))
           = [(BuildParameters i (containers st pc) d vs (view st ?x) (fst r), fst (snd r))]"
    by (simp add: call_build_parameters_def Let_def split_def c1 v1 b1 r_def record_call_def
          new_calls_def parameters_frame(1))
  show "dicts (snd (call_build_parameters self pc d vs i pb st)) ?x = dicts st ?x"
    by (simp add: call_build_parameters_def Let_def split_def record_call_def d1)
  show "backend (snd (call_build_parameters self pc d vs i pb st)) = snd (snd r)"
    by (simp add: call_build_parameters_def Let_def split_def c1 v1 b1 r_def record_call_def)
  show "wf self (snd (call_build_parameters self pc d vs i pb st))"
    using w1 by (simp add: call_build_parameters_def Let_def split_def record_call_def wf_def)
  have dist: "distinct (map snd (dicts st ?x))" using assms(1) by (simp add: wf_def)
  have "snd (call_build_parameters self pc d vs i pb st)
          = record_call (BuildParameters i (containers st pc) d vs (view st ?x) (fst r))
              (fst (snd r))
              (?st1\<lparr>containers := (containers ?st1)(pc := fst r), backend := snd (snd r)\<rparr>)"
    by (simp add: call_build_parameters_def Let_def split_def c1 v1 b1 r_def)
  then have "view (snd (call_build_parameters self pc d vs i pb st)) ?x
          = map (\<lambda>(k, b). (k, ((containers ?st1)(pc := fst r)) b)) (dicts ?st1 ?x)"
    by (simp add: view_def record_call_def)
  also have "\<dots> = map (\<lambda>(k, b). (k, ((containers ?st1)(pc := fst r)) b)) (dicts st ?x)"
    by (simp only: d1)
  also have "\<dots> = AList.update k (fst r) (map (\<lambda>(k, b). (k, containers ?st1 b)) (dicts st ?x))"
    by (rule view_write [OF dist assms(2)])
  also have "map (\<lambda>(k, b). (k, containers ?st1 b)) (dicts st ?x) = view st ?x"
    using vx by (simp add: view_def d1)
  finally show "view (snd (call_build_parameters self pc d vs i pb st)) ?x
           = AList.update k (fst r) (view st ?x)" .
qed

lemma call_build_expectation_configuration_sem:
  fixes self :: "('n, 'w) Rule" and b :: "('n, 'w) ExpectationConfigurationBuilder"
    and d :: Domain and vs :: "'n variables"
  assumes "wf self st"
  defines "r \<equiv> b d vs (view st (self_parameters self)) (backend st)"
  shows "fst (call_build_expectation_configuration self d vs j b st) = fst r"
    and "new_calls st (snd (call_build_expectation_configuration self d vs j b st))
           = [(BuildExpectationConfiguration j d vs (view st (self_parameters self)),
               case fst r of Inl e \<Rightarrow> Some e | Inr _ \<Rightarrow> None)]"
    and "view (snd (call_build_expectation_configuration self d vs j b st)) (self_parameters self)
           = view st (self_parameters self)"
    and "dicts (snd (call_build_expectation_configuration self d vs j b st)) (self_parameters self)
           = dicts st (self_parameters self)"
    and "backend (snd (call_build_expectation_configuration self d vs j b st)) = snd r"
    and "wf self (snd (call_build_expectation_configuration self d vs j b st))"
proof -
  let ?x = "self_parameters self"
  let ?st1 = "snd (parameters self st)"
  have x: "?x < next_addr st" using assms(1) by (simp add: wf_def)
  have v1: "view ?st1 (fst (parameters self st)) = view st ?x" by (rule parameters_view [OF assms(1)])
  have d1: "dicts ?st1 ?x = dicts st ?x" by (rule parameters_old_dicts [OF x])
  have b1: "backend ?st1 = backend st" by (simp add: parameters_frame(2))
  have w1: "wf self ?st1" by (rule parameters_wf [OF assms(1)])
  have vx: "view ?st1 ?x = view st ?x" by (rule parameters_self_view [OF assms(1)])
  show "fst (call_build_expectation_configuration self d vs j b st) = fst r"
    by (simp add: call_build_expectation_configuration_def Let_def split_def v1 b1 r_def)
  show "new_calls st (snd (call_build_expectation_configuration self d vs j b st))
           = [(BuildExpectationConfiguration j d vs (view st ?x),
               case fst r of Inl e \<Rightarrow> Some e | Inr _ \<Rightarrow> None)]"
    by (simp add: call_build_expectation_configuration_def Let_def split_def v1 b1 r_def
          record_call_def new_calls_def parameters_frame(1))
  show "dicts (snd (call_build_expectation_configuration self d vs j b st)) ?x = dicts st ?x"
    by (simp add: call_build_expectation_configuration_def Let_def split_def record_call_def d1)
  show "backend (snd (call_build_expectation_configuration self d vs j b st)) = snd r"
    by (simp add: call_build_expectation_configuration_def Let_def split_def v1 b1 r_def
          record_call_def)
  show "wf self (snd (call_build_expectation_configuration self d vs j b st))"
    using w1 by (simp add: call_build_expectation_configuration_def Let_def split_def
          record_call_def wf_def)
  show "view (snd (call_build_expectation_configuration self d vs j b st)) ?x = view st ?x"
    using vx by (simp add: call_build_expectation_configuration_def Let_def split_def
          record_call_def view_def)
qed

lemma replay_simps [simp]:
  "replay [] m = m"
  "replay ((c, x) # cs) m = replay cs (replay_call c m)"
  "replay (cs @ cs') m = replay cs' (replay cs m)"
  by (simp_all add: replay_def)

lemma snapshots_append [simp]:
  "snapshots m (cs @ cs') \<longleftrightarrow> snapshots m cs \<and> snapshots (replay cs m) cs'"
  by (induction cs arbitrary: m) auto

lemma run_parameter_builders_sem:
  assumes "wf self st" and "map_of (dicts st (self_parameters self)) (domain_id d) = Some pc"
  shows "snapshots (view st (self_parameters self))
           (new_calls st (snd (run_parameter_builders self pc d vs ips st)))
         \<and> view (snd (run_parameter_builders self pc d vs ips st)) (self_parameters self)
             = replay (new_calls st (snd (run_parameter_builders self pc d vs ips st)))
                 (view st (self_parameters self))
         \<and> wf self (snd (run_parameter_builders self pc d vs ips st))
         \<and> dicts (snd (run_parameter_builders self pc d vs ips st)) (self_parameters self)
             = dicts st (self_parameters self)"
  using assms
proof (induction ips arbitrary: st)
  case Nil
  then show ?case by simp
next
  case (Cons ip ips)
  obtain i pb where ip: "ip = (i, pb)" by (cases ip)
  let ?x = "self_parameters self"
  let ?step = "call_build_parameters self pc d vs i pb st"
  note sem = call_build_parameters_sem [OF Cons.prems, where pb = pb and d = d and vs = vs and i = i]
  have cin: "map_of (view st ?x) (domain_id d) = Some (containers st pc)"
    using Cons.prems(2) by (simp add: map_of_view)
  have s1: "snapshots (view st ?x) (new_calls st (snd ?step))"
    using cin by (simp add: sem(2))
  have v1: "view (snd ?step) ?x = replay (new_calls st (snd ?step)) (view st ?x)"
    by (simp add: sem(2) sem(3))
  show ?case
  proof (cases "fst ?step")
    case (Some e)
    then have "snd (run_parameter_builders self pc d vs (ip # ips) st) = snd ?step"
      by (cases ?step) (simp add: ip run_parameter_builders.simps(2))
    then show ?thesis using s1 v1 sem(4) sem(6) by simp
  next
    case None
    have m: "map_of (dicts (snd ?step) ?x) (domain_id d) = Some pc"
      using Cons.prems(2) by (simp add: sem(4))
    note IH = Cons.IH [OF sem(6) m]
    have run: "snd (run_parameter_builders self pc d vs (ip # ips) st)
                 = snd (run_parameter_builders self pc d vs ips (snd ?step))"
      using None by (cases ?step) (simp add: ip run_parameter_builders.simps(2))
    have nc: "new_calls st (snd (run_parameter_builders self pc d vs (ip # ips) st))
                = new_calls st (snd ?step)
                  @ new_calls (snd ?step) (snd (run_parameter_builders self pc d vs ips (snd ?step)))"
      using None by (simp add: ip new_calls_run_parameter_builders_Cons)
    show ?thesis
      unfolding nc using IH s1 v1 sem(4) by (simp add: run)
  qed
qed

lemma run_expectation_configuration_builders_sem:
  assumes "wf self st" and "domain_id d \<in> fst ` set (view st (self_parameters self))"
  shows "snapshots (view st (self_parameters self))
           (new_calls st (snd (run_expectation_configuration_builders self d vs jbs acc st)))
         \<and> view (snd (run_expectation_configuration_builders self d vs jbs acc st))
               (self_parameters self)
             = replay (new_calls st
                  (snd (run_expectation_configuration_builders self d vs jbs acc st)))
                 (view st (self_parameters self))
         \<and> wf self (snd (run_expectation_configuration_builders self d vs jbs acc st))"
  using assms
proof (induction jbs arbitrary: st acc)
  case Nil
  then show ?case by simp
next
  case (Cons jb jbs)
  obtain j b where jb: "jb = (j, b)" by (cases jb)
  let ?x = "self_parameters self"
  let ?step = "call_build_expectation_configuration self d vs j b st"
  note sem = call_build_expectation_configuration_sem [OF Cons.prems(1), where b = b and d = d and vs = vs and j = j]
  have s1: "snapshots (view st ?x) (new_calls st (snd ?step))"
    using Cons.prems(2) by (simp add: sem(2))
  have v1: "view (snd ?step) ?x = replay (new_calls st (snd ?step)) (view st ?x)"
    by (simp add: sem(2) sem(3))
  show ?case
  proof (cases "fst ?step")
    case (Inl e)
    then have "snd (run_expectation_configuration_builders self d vs (jb # jbs) acc st)
                 = snd ?step"
      by (cases ?step) (simp add: jb run_expectation_configuration_builders.simps(2))
    then show ?thesis using s1 v1 sem(6) by simp
  next
    case (Inr cfg)
    have k: "domain_id d \<in> fst ` set (view (snd ?step) ?x)"
      using Cons.prems(2) by (simp add: sem(3))
    note IH = Cons.IH [OF sem(6) k, of "acc @ [cfg]"]
    have run: "snd (run_expectation_configuration_builders self d vs (jb # jbs) acc st)
                 = snd (run_expectation_configuration_builders self d vs jbs (acc @ [cfg])
                          (snd ?step))"
      using Inr by (cases ?step) (simp add: jb run_expectation_configuration_builders.simps(2))
    have nc: "new_calls st (snd (run_expectation_configuration_builders self d vs (jb # jbs) acc st))
                = new_calls st (snd ?step)
                  @ new_calls (snd ?step)
                      (snd (run_expectation_configuration_builders self d vs jbs (acc @ [cfg])
                             (snd ?step)))"
      using Inr by (simp add: jb new_calls_run_expectation_configuration_builders_Cons)
    show ?thesis
      unfolding nc using IH s1 v1 by (simp add: run)
  qed
qed

lemma generate_domain_unfold:
  "generate_domain self vs d acc st =
     (case self_parameter_builders self of
        None \<Rightarrow> (Inl TypeError, snd (new_parameter_container self d st))
      | Some pbs \<Rightarrow>
         (case fst (run_parameter_builders self (fst (new_parameter_container self d st)) d vs
                     (enumerate 0 pbs) (snd (new_parameter_container self d st))) of
            Some e \<Rightarrow>
              (Inl e, snd (run_parameter_builders self (fst (new_parameter_container self d st))
                             d vs (enumerate 0 pbs) (snd (new_parameter_container self d st))))
          | None \<Rightarrow>
             (case self_expectation_configuration_builders self of
                None \<Rightarrow>
                  (Inl TypeError,
                   snd (run_parameter_builders self (fst (new_parameter_container self d st))
                          d vs (enumerate 0 pbs) (snd (new_parameter_container self d st))))
              | Some ecbs \<Rightarrow>
                 run_expectation_configuration_builders self d vs (enumerate 0 ecbs) acc
                   (snd (run_parameter_builders self (fst (new_parameter_container self d st))
                          d vs (enumerate 0 pbs) (snd (new_parameter_container self d st)))))))"
  by (simp add: generate_domain_def split_def Let_def split: option.splits)

lemma keys_view: "fst ` set (view st x) = fst ` set (dicts st x)"
  by (force simp: view_def)

lemma generate_domain_sem:
  assumes "wf self st"
  shows "snapshots (view st (self_parameters self))
           (new_calls st (snd (generate_domain self vs d acc st)))
         \<and> view (snd (generate_domain self vs d acc st)) (self_parameters self)
             = replay (new_calls st (snd (generate_domain self vs d acc st)))
                 (view st (self_parameters self))
         \<and> wf self (snd (generate_domain self vs d acc st))"
proof -
  let ?x = "self_parameters self"
  let ?pc = "fst (new_parameter_container self d st)"
  let ?st1 = "snd (new_parameter_container self d st)"
  note reg = new_parameter_container_sem [OF assms, of d]
  have v1: "view ?st1 ?x = replay [(NewParameterContainer d, None)] (view st ?x)"
    by (simp add: reg(2))
  show ?thesis
  proof (cases "self_parameter_builders self")
    case None
    then show ?thesis using reg(1) v1
      by (simp add: generate_domain_unfold new_calls_new_parameter_container)
  next
    case (Some pbs)
    note pbs = Some
    let ?run = "run_parameter_builders self ?pc d vs (enumerate 0 pbs) ?st1"
    note run = run_parameter_builders_sem [OF reg(1) reg(3), of vs "enumerate 0 pbs"]
    have dk: "dicts (snd ?run) ?x = dicts ?st1 ?x" using run by blast
    have "(domain_id d, ?pc) \<in> set (dicts ?st1 ?x)" using reg(3) by (rule map_of_SomeD)
    then have "domain_id d \<in> fst ` set (dicts (snd ?run) ?x)"
      unfolding dk by (rule rev_image_eqI) simp
    then have key: "domain_id d \<in> fst ` set (view (snd ?run) ?x)"
      by (simp only: keys_view)
    show ?thesis
    proof (cases "fst ?run")
      case (Some e)
      have nc: "new_calls st (snd (generate_domain self vs d acc st))
                  = (NewParameterContainer d, None) # new_calls ?st1 (snd ?run)"
        using pbs Some by (simp add: new_calls_generate_domain Let_def)
      have eq: "snd (generate_domain self vs d acc st) = snd ?run"
        using pbs Some by (simp add: generate_domain_unfold)
      show ?thesis unfolding nc unfolding eq using run v1 by simp
    next
      case None
      note ok = None
      show ?thesis
      proof (cases "self_expectation_configuration_builders self")
        case None
        have nc: "new_calls st (snd (generate_domain self vs d acc st))
                    = (NewParameterContainer d, None) # new_calls ?st1 (snd ?run)"
          using pbs ok None by (simp add: new_calls_generate_domain Let_def)
        have eq: "snd (generate_domain self vs d acc st) = snd ?run"
          using pbs ok None by (simp add: generate_domain_unfold)
        show ?thesis unfolding nc unfolding eq using run v1 by simp
      next
        case (Some ecbs)
        let ?run3 = "run_expectation_configuration_builders self d vs (enumerate 0 ecbs) acc
                       (snd ?run)"
        note run3 = run_expectation_configuration_builders_sem
          [OF conjunct1 [OF conjunct2 [OF conjunct2 [OF run]]] key, of vs "enumerate 0 ecbs" acc]
        have nc: "new_calls st (snd (generate_domain self vs d acc st))
                    = (NewParameterContainer d, None)
                      # new_calls ?st1 (snd ?run) @ new_calls (snd ?run) (snd ?run3)"
          using pbs ok Some by (simp add: new_calls_generate_domain Let_def)
        have eq: "snd (generate_domain self vs d acc st) = snd ?run3"
          using pbs ok Some by (simp add: generate_domain_unfold)
        show ?thesis unfolding nc unfolding eq using run v1 run3 by simp
      qed
    qed
  qed
qed

lemma snd_generate_domains_Cons:
  "snd (generate_domains self vs (d # ds) acc st)
     = (case fst (generate_domain self vs d acc st) of
          Inl e \<Rightarrow> snd (generate_domain self vs d acc st)
        | Inr acc' \<Rightarrow>
            snd (generate_domains self vs ds acc' (snd (generate_domain self vs d acc st))))"
  by (cases "generate_domain self vs d acc st")
     (simp add: generate_domains.simps(2) split: sum.splits)

lemma generate_domains_sem:
  assumes "wf self st"
  shows "snapshots (view st (self_parameters self))
           (new_calls st (snd (generate_domains self vs ds acc st)))
         \<and> view (snd (generate_domains self vs ds acc st)) (self_parameters self)
             = replay (new_calls st (snd (generate_domains self vs ds acc st)))
                 (view st (self_parameters self))
         \<and> wf self (snd (generate_domains self vs ds acc st))"
  using assms
proof (induction ds arbitrary: st acc)
  case Nil
  then show ?case by simp
next
  case (Cons d ds)
  let ?step = "generate_domain self vs d acc st"
  note step = generate_domain_sem [OF Cons.prems, of vs d acc]
  show ?case
  proof (cases "fst ?step")
    case (Inl e)
    then show ?thesis using step
      by (simp add: new_calls_generate_domains_Cons snd_generate_domains_Cons)
  next
    case (Inr acc')
    note IH = Cons.IH [OF conjunct2 [OF conjunct2 [OF step]], of acc']
    have nc: "new_calls st (snd (generate_domains self vs (d # ds) acc st))
                = new_calls st (snd ?step)
                  @ new_calls (snd ?step) (snd (generate_domains self vs ds acc' (snd ?step)))"
      using Inr by (simp add: new_calls_generate_domains_Cons)
    have run: "snd (generate_domains self vs (d # ds) acc st)
                 = snd (generate_domains self vs ds acc' (snd ?step))"
      using Inr by (simp add: snd_generate_domains_Cons)
    show ?thesis unfolding nc using IH step by (simp add: run)
  qed
qed

lemma after_get_domains_sem:
  "view (after_get_domains self vars db st) x = view st x"
  "wf self (after_get_domains self vars db st) = wf self st"
  by (simp_all add: after_get_domains_def record_call_def Let_def view_def wf_def)

lemma generate_sem:
  assumes "wf self st"
  shows "snapshots (view st (self_parameters self)) (new_calls st (snd (generate self vars st)))
         \<and> view (snd (generate self vars st)) (self_parameters self)
             = replay (new_calls st (snd (generate self vars st)))
                 (view st (self_parameters self))
         \<and> wf self (snd (generate self vars st))"
proof (cases "self_domain_builder self")
  case None
  then show ?thesis using assms by (simp add: generate_unfold)
next
  case (Some db)
  let ?vs = "resolve_variables self vars"
  let ?st1 = "after_get_domains self vars db st"
  have w1: "wf self ?st1" using assms by (simp add: after_get_domains_sem)
  show ?thesis
  proof (cases "fst (db ?vs (backend st))")
    case (Inl e)
    have "snd (generate self vars st) = ?st1" using Some Inl by (simp add: generate_unfold)
    then show ?thesis using w1
      by (simp add: new_calls_after_get_domains after_get_domains_sem)
  next
    case (Inr ds)
    let ?run = "generate_domains self ?vs ds [] ?st1"
    have eq: "snd (generate self vars st) = snd ?run"
      using Some Inr by (simp add: generate_unfold)
    have nc: "new_calls st (snd (generate self vars st))
                = new_calls st ?st1 @ new_calls ?st1 (snd ?run)"
      using Some Inr by (simp add: new_calls_generate)
    show ?thesis
      unfolding nc using generate_domains_sem [OF w1, of ?vs ds "[]"]
      by (simp add: eq new_calls_after_get_domains after_get_domains_sem)
  qed
qed

lemma keys_replay_call: "fst ` set m \<subseteq> fst ` set (replay_call c m)"
  by (cases c) (auto simp: dom_update)

lemma snapshots_starts_empty:
  "snapshots (AList.update (domain_id d) (ParameterContainer None) m) cs \<Longrightarrow> starts_empty d cs"
proof (cases cs)
  case Nil
  then show ?thesis by (simp add: starts_empty_def)
next
  case (Cons p cs')
  obtain c x where p: "p = (c, x)" by (cases p)
  assume "snapshots (AList.update (domain_id d) (ParameterContainer None) m) cs"
  then show ?thesis
    by (cases c) (auto simp: Cons p starts_empty_def update_conv')
qed

lemma snapshots_covered:
  "snapshots m cs \<Longrightarrow> set K \<subseteq> fst ` set m \<Longrightarrow> covered K cs"
proof (induction cs arbitrary: m K)
  case Nil
  show ?case by simp
next
  case (Cons p cs)
  obtain c x where p: "p = (c, x)" by (cases p)
  from Cons.prems have rest: "snapshots (replay_call c m) cs" by (simp add: p)
  have K': "set K \<subseteq> fst ` set (replay_call c m)"
    using Cons.prems(2) keys_replay_call [of m c] by blast
  show ?case
  proof (cases c)
    case (GetDomains vs)
    then show ?thesis using Cons.IH [OF rest K'] by (simp add: p)
  next
    case (NewParameterContainer d)
    then have "set (domain_id d # K) \<subseteq> fst ` set (replay_call c m)"
      using K' by (simp add: dom_update)
    from Cons.IH [OF rest this] snapshots_starts_empty [of d m cs] rest
    show ?thesis by (simp add: p NewParameterContainer)
  next
    case (BuildParameters i cin d vs ps cout)
    then show ?thesis using Cons.prems Cons.IH [OF rest K'] by (simp add: p)
  next
    case (BuildExpectationConfiguration j d vs ps)
    then show ?thesis using Cons.prems Cons.IH [OF rest K'] by (simp add: p)
  qed
qed

lemma keys_replay:
  "fst ` set m \<union> set (registered cs) \<subseteq> fst ` set (replay cs m)"
proof (induction cs arbitrary: m)
  case Nil
  show ?case by simp
next
  case (Cons p cs)
  obtain c x where p: "p = (c, x)" by (cases p)
  show ?case using Cons.IH [of "replay_call c m"] keys_replay_call [of m c]
    by (cases c) (auto simp: p dom_update)
qed

text \<open>
  C6: in a state of a Rule, every builder called by \<^verbatim>\<open>generate\<close> is passed the value the
  parameter map has at that moment: an empty container has been registered under the id
  of its domain before the first builder runs for the domain, so the map passed has an
  entry for every domain registered so far in this call and for every key that earlier
  calls left; and all these entries are in the map when \<^verbatim>\<open>generate\<close> has ended.
\<close>

theorem generate_registers_containers:
  assumes "wf self st"
  shows "snapshots (view st (self_parameters self)) (new_calls st (snd (generate self vars st)))
         \<and> covered (map fst (view st (self_parameters self)))
             (new_calls st (snd (generate self vars st)))
         \<and> fst ` set (view st (self_parameters self))
             \<union> set (registered (new_calls st (snd (generate self vars st))))
           \<subseteq> fst ` set (view (snd (generate self vars st)) (self_parameters self))"
proof -
  note sem = generate_sem [OF assms, of vars]
  from sem have s: "snapshots (view st (self_parameters self))
                      (new_calls st (snd (generate self vars st)))" by blast
  from snapshots_covered [OF s, of "map fst (view st (self_parameters self))"]
  have c: "covered (map fst (view st (self_parameters self)))
             (new_calls st (snd (generate self vars st)))" by simp
  from sem have v: "view (snd (generate self vars st)) (self_parameters self)
             = replay (new_calls st (snd (generate self vars st)))
                 (view st (self_parameters self))" by blast
  show ?thesis using s c keys_replay unfolding v by blast
qed

theorem generate_registers_containers_witness:
  "wf (fst example_rule) (snd example_rule)
   \<and> snapshots (view (snd example_rule) (self_parameters (fst example_rule)))
         (new_calls (snd example_rule) (snd (generate (fst example_rule) None (snd example_rule))))
   \<and> covered (map fst (view (snd example_rule) (self_parameters (fst example_rule))))
         (new_calls (snd example_rule) (snd (generate (fst example_rule) None (snd example_rule))))
   \<and> fst ` set (view (snd example_rule) (self_parameters (fst example_rule)))
         \<union> set (registered (new_calls (snd example_rule)
                    (snd (generate (fst example_rule) None (snd example_rule)))))
       \<subseteq> fst ` set (view (snd (generate (fst example_rule) None (snd example_rule)))
                        (self_parameters (fst example_rule)))"
  by (rule conjI [OF example_rule_wf generate_registers_containers [OF example_rule_wf]])

text \<open>
  C9: when \<^verbatim>\<open>generate\<close> ends with an error, the parameter map is what the calls made
  of it and nothing is taken back: the keys it had and the ids registered in this call
  are in it, a \<^verbatim>\<open>build_parameters\<close> that raised last has left in the container of its
  domain what it had written, and the next \<^verbatim>\<open>Rule.parameters\<close> returns that map.
\<close>

theorem generate_no_rollback:
  assumes "wf self st" and "fst (generate self vars st) = Inl e"
  shows "view (snd (generate self vars st)) (self_parameters self)
           = replay (new_calls st (snd (generate self vars st))) (view st (self_parameters self))
         \<and> view (snd (parameters self (snd (generate self vars st))))
               (fst (parameters self (snd (generate self vars st))))
             = replay (new_calls st (snd (generate self vars st)))
                 (view st (self_parameters self))
         \<and> fst ` set (view st (self_parameters self))
             \<union> set (registered (new_calls st (snd (generate self vars st))))
           \<subseteq> fst ` set (view (snd (generate self vars st)) (self_parameters self))
         \<and> (new_calls st (snd (generate self vars st)) = []
            \<or> (case last (new_calls st (snd (generate self vars st))) of
                 (BuildParameters i cin d vs' ps cout, x) \<Rightarrow>
                   map_of (view (snd (generate self vars st)) (self_parameters self))
                     (domain_id d) = Some cout
               | _ \<Rightarrow> True))"
proof -
  let ?N = "new_calls st (snd (generate self vars st))"
  let ?m = "view st (self_parameters self)"
  note sem = generate_sem [OF assms(1), of vars]
  from sem have v: "view (snd (generate self vars st)) (self_parameters self) = replay ?N ?m"
    by blast
  from sem have w: "wf self (snd (generate self vars st))" by blast
  have p: "view (snd (parameters self (snd (generate self vars st))))
               (fst (parameters self (snd (generate self vars st)))) = replay ?N ?m"
    using parameters_view [OF w] v by simp
  have l: "?N = [] \<or> (case last ?N of
                 (BuildParameters i cin d vs' ps cout, x) \<Rightarrow>
                   map_of (replay ?N ?m) (domain_id d) = Some cout
               | _ \<Rightarrow> True)"
  proof (cases ?N rule: rev_cases)
    case Nil
    then show ?thesis by simp
  next
    case (snoc cs q)
    obtain c x where q: "q = (c, x)" by (cases q)
    show ?thesis unfolding snoc by (cases c) (simp_all add: q update_conv')
  qed
  show ?thesis unfolding v using p l keys_replay [of ?m ?N] by simp
qed

theorem generate_no_rollback_witness:
  "wf (fst failing_rule) (snd failing_rule)
   \<and> fst (generate (fst failing_rule) None (snd failing_rule)) = Inl ParameterComputationError
   \<and> view (snd (parameters (fst failing_rule)
               (snd (generate (fst failing_rule) None (snd failing_rule)))))
          (fst (parameters (fst failing_rule)
               (snd (generate (fst failing_rule) None (snd failing_rule)))))
       = [(''A'', ParameterContainer (Some [(''row_count'', 100), (''checked'', 1)])),
          (''B'', ParameterContainer (Some [(''row_count'', 100), (''partial'', 1)]))]"
proof -
  have h: "fst (generate (fst failing_rule) None (snd failing_rule))
             = Inl ParameterComputationError"
    using failing_run_result by (simp add: failing_run_def)
  have v: "view (snd (generate (fst failing_rule) None (snd failing_rule)))
             (self_parameters (fst failing_rule))
       = [(''A'', ParameterContainer (Some [(''row_count'', 100), (''checked'', 1)])),
          (''B'', ParameterContainer (Some [(''row_count'', 100), (''partial'', 1)]))]"
    using failing_run_view by (simp add: failing_run_def)
  from generate_no_rollback [OF failing_rule_wf h]
  have "view (snd (parameters (fst failing_rule)
               (snd (generate (fst failing_rule) None (snd failing_rule)))))
          (fst (parameters (fst failing_rule)
               (snd (generate (fst failing_rule) None (snd failing_rule)))))
        = view (snd (generate (fst failing_rule) None (snd failing_rule)))
             (self_parameters (fst failing_rule))"
    by simp
  then show ?thesis using failing_rule_wf h v by simp
qed

subsection \<open>Repeated calls\<close>

lemma sim_call_build_parameters:
  assumes "sim self st1 st2"
    and "map_of (dicts st1 (self_parameters self)) k = Some pc1"
    and "map_of (dicts st2 (self_parameters self)) k = Some pc2"
  shows "fst (call_build_parameters self pc1 d vs i pb st1)
           = fst (call_build_parameters self pc2 d vs i pb st2)"
    and "new_calls st1 (snd (call_build_parameters self pc1 d vs i pb st1))
           = new_calls st2 (snd (call_build_parameters self pc2 d vs i pb st2))"
    and "sim self (snd (call_build_parameters self pc1 d vs i pb st1))
           (snd (call_build_parameters self pc2 d vs i pb st2))"
proof -
  let ?x = "self_parameters self"
  from assms(1) have w1: "wf self st1" and w2: "wf self st2"
    and v: "view st1 ?x = view st2 ?x" and b: "backend st1 = backend st2"
    by (simp_all add: sim_def)
  have "map_of (view st1 ?x) k = Some (containers st1 pc1)"
    using assms(2) by (simp add: map_of_view)
  moreover have "map_of (view st2 ?x) k = Some (containers st2 pc2)"
    using assms(3) by (simp add: map_of_view)
  ultimately have c: "containers st1 pc1 = containers st2 pc2" using v by simp
  note s1 = call_build_parameters_sem [OF w1 assms(2), where pb = pb and d = d and vs = vs and i = i]
  note s2 = call_build_parameters_sem [OF w2 assms(3), where pb = pb and d = d and vs = vs and i = i]
  show "fst (call_build_parameters self pc1 d vs i pb st1)
           = fst (call_build_parameters self pc2 d vs i pb st2)"
    by (simp add: s1(1) s2(1) c v b)
  show "new_calls st1 (snd (call_build_parameters self pc1 d vs i pb st1))
           = new_calls st2 (snd (call_build_parameters self pc2 d vs i pb st2))"
    by (simp add: s1(2) s2(2) c v b)
  show "sim self (snd (call_build_parameters self pc1 d vs i pb st1))
           (snd (call_build_parameters self pc2 d vs i pb st2))"
    by (simp add: sim_def s1(3,5,6) s2(3,5,6) c v b)
qed

lemma sim_call_build_expectation_configuration:
  assumes "sim self st1 st2"
  shows "fst (call_build_expectation_configuration self d vs j b st1)
           = fst (call_build_expectation_configuration self d vs j b st2)"
    and "new_calls st1 (snd (call_build_expectation_configuration self d vs j b st1))
           = new_calls st2 (snd (call_build_expectation_configuration self d vs j b st2))"
    and "sim self (snd (call_build_expectation_configuration self d vs j b st1))
           (snd (call_build_expectation_configuration self d vs j b st2))"
proof -
  let ?x = "self_parameters self"
  from assms(1) have w1: "wf self st1" and w2: "wf self st2"
    and v: "view st1 ?x = view st2 ?x" and bk: "backend st1 = backend st2"
    by (simp_all add: sim_def)
  note s1 = call_build_expectation_configuration_sem
    [OF w1, where b = b and d = d and vs = vs and j = j]
  note s2 = call_build_expectation_configuration_sem
    [OF w2, where b = b and d = d and vs = vs and j = j]
  show "fst (call_build_expectation_configuration self d vs j b st1)
           = fst (call_build_expectation_configuration self d vs j b st2)"
    by (simp add: s1(1) s2(1) v bk)
  show "new_calls st1 (snd (call_build_expectation_configuration self d vs j b st1))
           = new_calls st2 (snd (call_build_expectation_configuration self d vs j b st2))"
    by (simp add: s1(2) s2(2) v bk)
  show "sim self (snd (call_build_expectation_configuration self d vs j b st1))
           (snd (call_build_expectation_configuration self d vs j b st2))"
    by (simp add: sim_def s1(3,5,6) s2(3,5,6) v bk)
qed

lemma snd_run_parameter_builders_Cons:
  "snd (run_parameter_builders self pc d vs ((i, pb) # ips) st)
     = (case fst (call_build_parameters self pc d vs i pb st) of
          Some e \<Rightarrow> snd (call_build_parameters self pc d vs i pb st)
        | None \<Rightarrow> snd (run_parameter_builders self pc d vs ips
                         (snd (call_build_parameters self pc d vs i pb st))))"
  by (cases "call_build_parameters self pc d vs i pb st")
     (simp add: run_parameter_builders.simps(2) split: option.splits)

lemma snd_run_expectation_configuration_builders_Cons:
  "snd (run_expectation_configuration_builders self d vs ((j, b) # jbs) acc st)
     = (case fst (call_build_expectation_configuration self d vs j b st) of
          Inl e \<Rightarrow> snd (call_build_expectation_configuration self d vs j b st)
        | Inr cfg \<Rightarrow>
            snd (run_expectation_configuration_builders self d vs jbs (acc @ [cfg])
                   (snd (call_build_expectation_configuration self d vs j b st))))"
  by (cases "call_build_expectation_configuration self d vs j b st")
     (simp add: run_expectation_configuration_builders.simps(2) split: sum.splits)

lemma sim_run_parameter_builders:
  assumes "sim self st1 st2"
    and "map_of (dicts st1 (self_parameters self)) k = Some pc1"
    and "map_of (dicts st2 (self_parameters self)) k = Some pc2"
  shows "fst (run_parameter_builders self pc1 d vs ips st1)
           = fst (run_parameter_builders self pc2 d vs ips st2)
         \<and> new_calls st1 (snd (run_parameter_builders self pc1 d vs ips st1))
           = new_calls st2 (snd (run_parameter_builders self pc2 d vs ips st2))
         \<and> sim self (snd (run_parameter_builders self pc1 d vs ips st1))
             (snd (run_parameter_builders self pc2 d vs ips st2))"
  using assms
proof (induction ips arbitrary: st1 st2)
  case Nil
  then show ?case by simp
next
  case (Cons ip ips)
  obtain i pb where ip: "ip = (i, pb)" by (cases ip)
  let ?s1 = "call_build_parameters self pc1 d vs i pb st1"
  let ?s2 = "call_build_parameters self pc2 d vs i pb st2"
  note step = sim_call_build_parameters [OF Cons.prems, of d vs i pb]
  from Cons.prems(1) have w1: "wf self st1" and w2: "wf self st2" by (simp_all add: sim_def)
  have m1: "map_of (dicts (snd ?s1) (self_parameters self)) k = Some pc1"
    using call_build_parameters_sem(4) [OF w1 Cons.prems(2)] Cons.prems(2) by simp
  have m2: "map_of (dicts (snd ?s2) (self_parameters self)) k = Some pc2"
    using call_build_parameters_sem(4) [OF w2 Cons.prems(3)] Cons.prems(3) by simp
  note IH = Cons.IH [OF step(3) m1 m2]
  have A: "fst (run_parameter_builders self pc1 d vs (ip # ips) st1)
           = fst (run_parameter_builders self pc2 d vs (ip # ips) st2)
         \<and> new_calls st1 (snd (run_parameter_builders self pc1 d vs (ip # ips) st1))
           = new_calls st2 (snd (run_parameter_builders self pc2 d vs (ip # ips) st2))"
    using step IH
    by (simp add: ip fst_run_parameter_builders_Cons new_calls_run_parameter_builders_Cons
          split: option.splits)
  have B: "sim self (snd (run_parameter_builders self pc1 d vs (ip # ips) st1))
             (snd (run_parameter_builders self pc2 d vs (ip # ips) st2))"
    using step IH
    by (simp add: ip snd_run_parameter_builders_Cons split: option.splits)
  show ?case using A B by simp
qed

lemma sim_run_expectation_configuration_builders:
  assumes "sim self st1 st2"
  shows "fst (run_expectation_configuration_builders self d vs jbs acc st1)
           = fst (run_expectation_configuration_builders self d vs jbs acc st2)
         \<and> new_calls st1 (snd (run_expectation_configuration_builders self d vs jbs acc st1))
           = new_calls st2 (snd (run_expectation_configuration_builders self d vs jbs acc st2))
         \<and> sim self (snd (run_expectation_configuration_builders self d vs jbs acc st1))
             (snd (run_expectation_configuration_builders self d vs jbs acc st2))"
  using assms
proof (induction jbs arbitrary: st1 st2 acc)
  case Nil
  then show ?case by simp
next
  case (Cons jb jbs)
  obtain j b where jb: "jb = (j, b)" by (cases jb)
  note step = sim_call_build_expectation_configuration [OF Cons.prems, of d vs j b]
  note IH = Cons.IH [OF step(3)]
  have A: "fst (run_expectation_configuration_builders self d vs (jb # jbs) acc st1)
           = fst (run_expectation_configuration_builders self d vs (jb # jbs) acc st2)
         \<and> new_calls st1 (snd (run_expectation_configuration_builders self d vs (jb # jbs) acc st1))
           = new_calls st2 (snd (run_expectation_configuration_builders self d vs (jb # jbs) acc st2))"
    using step IH
    by (simp add: jb fst_run_expectation_configuration_builders_Cons
          new_calls_run_expectation_configuration_builders_Cons split: sum.splits)
  have B: "sim self (snd (run_expectation_configuration_builders self d vs (jb # jbs) acc st1))
             (snd (run_expectation_configuration_builders self d vs (jb # jbs) acc st2))"
    using step IH
    by (simp add: jb snd_run_expectation_configuration_builders_Cons split: sum.splits)
  show ?case using A B by simp
qed

lemma snd_generate_domain:
  "snd (generate_domain self vs d acc st) =
     (case self_parameter_builders self of
        None \<Rightarrow> snd (new_parameter_container self d st)
      | Some pbs \<Rightarrow>
         (case fst (run_parameter_builders self (fst (new_parameter_container self d st)) d vs
                     (enumerate 0 pbs) (snd (new_parameter_container self d st))) of
            Some e \<Rightarrow>
              snd (run_parameter_builders self (fst (new_parameter_container self d st))
                     d vs (enumerate 0 pbs) (snd (new_parameter_container self d st)))
          | None \<Rightarrow>
             (case self_expectation_configuration_builders self of
                None \<Rightarrow>
                   snd (run_parameter_builders self (fst (new_parameter_container self d st))
                          d vs (enumerate 0 pbs) (snd (new_parameter_container self d st)))
              | Some ecbs \<Rightarrow>
                 snd (run_expectation_configuration_builders self d vs (enumerate 0 ecbs) acc
                   (snd (run_parameter_builders self (fst (new_parameter_container self d st))
                          d vs (enumerate 0 pbs) (snd (new_parameter_container self d st))))))))"
  by (simp add: generate_domain_unfold split: option.splits)

lemma sim_generate_domain:
  assumes "sim self st1 st2"
  shows "fst (generate_domain self vs d acc st1) = fst (generate_domain self vs d acc st2)
         \<and> new_calls st1 (snd (generate_domain self vs d acc st1))
           = new_calls st2 (snd (generate_domain self vs d acc st2))
         \<and> sim self (snd (generate_domain self vs d acc st1))
             (snd (generate_domain self vs d acc st2))"
proof -
  let ?x = "self_parameters self"
  from assms have w1: "wf self st1" and w2: "wf self st2"
    and v: "view st1 ?x = view st2 ?x" and b: "backend st1 = backend st2"
    by (simp_all add: sim_def)
  note r1 = new_parameter_container_sem [OF w1, of d]
  note r2 = new_parameter_container_sem [OF w2, of d]
  let ?pc1 = "fst (new_parameter_container self d st1)"
  let ?pc2 = "fst (new_parameter_container self d st2)"
  let ?s1 = "snd (new_parameter_container self d st1)"
  let ?s2 = "snd (new_parameter_container self d st2)"
  have sim1: "sim self ?s1 ?s2"
    by (simp add: sim_def r1 r2 v b)
  show ?thesis
  proof (cases "self_parameter_builders self")
    case None
    then show ?thesis using sim1
      by (simp add: generate_domain_fst new_calls_generate_domain snd_generate_domain
            new_calls_new_parameter_container)
  next
    case (Some pbs)
    note pbs = Some
    note run = sim_run_parameter_builders [OF sim1 r1(3) r2(3), of d vs "enumerate 0 pbs"]
    let ?t1 = "snd (run_parameter_builders self ?pc1 d vs (enumerate 0 pbs) ?s1)"
    let ?t2 = "snd (run_parameter_builders self ?pc2 d vs (enumerate 0 pbs) ?s2)"
    from run have sim2: "sim self ?t1 ?t2" by blast
    have A: "fst (generate_domain self vs d acc st1) = fst (generate_domain self vs d acc st2)"
      using pbs run sim_run_expectation_configuration_builders [OF sim2, of d vs _ acc]
      by (simp add: generate_domain_fst split: option.splits)
    have B: "new_calls st1 (snd (generate_domain self vs d acc st1))
           = new_calls st2 (snd (generate_domain self vs d acc st2))"
      using pbs run sim_run_expectation_configuration_builders [OF sim2, of d vs _ acc]
      by (simp add: new_calls_generate_domain Let_def split: option.splits)
    have C: "sim self (snd (generate_domain self vs d acc st1))
             (snd (generate_domain self vs d acc st2))"
      using pbs run sim_run_expectation_configuration_builders [OF sim2, of d vs _ acc]
      by (simp add: snd_generate_domain split: option.splits)
    show ?thesis using A B C by simp
  qed
qed

lemma sim_generate_domains:
  assumes "sim self st1 st2"
  shows "fst (generate_domains self vs ds acc st1) = fst (generate_domains self vs ds acc st2)
         \<and> new_calls st1 (snd (generate_domains self vs ds acc st1))
           = new_calls st2 (snd (generate_domains self vs ds acc st2))
         \<and> sim self (snd (generate_domains self vs ds acc st1))
             (snd (generate_domains self vs ds acc st2))"
  using assms
proof (induction ds arbitrary: st1 st2 acc)
  case Nil
  then show ?case by simp
next
  case (Cons d ds)
  note step = sim_generate_domain [OF Cons.prems, of vs d acc]
  from step have s: "sim self (snd (generate_domain self vs d acc st1))
                       (snd (generate_domain self vs d acc st2))" by blast
  note IH = Cons.IH [OF s]
  have A: "fst (generate_domains self vs (d # ds) acc st1)
             = fst (generate_domains self vs (d # ds) acc st2)
         \<and> new_calls st1 (snd (generate_domains self vs (d # ds) acc st1))
           = new_calls st2 (snd (generate_domains self vs (d # ds) acc st2))"
    using step IH
    by (simp add: fst_generate_domains_Cons new_calls_generate_domains_Cons split: sum.splits)
  have B: "sim self (snd (generate_domains self vs (d # ds) acc st1))
             (snd (generate_domains self vs (d # ds) acc st2))"
    using step IH by (simp add: snd_generate_domains_Cons split: sum.splits)
  show ?case using A B by simp
qed

lemma sim_after_get_domains:
  "sim self st1 st2 \<Longrightarrow>
   sim self (after_get_domains self vars db st1) (after_get_domains self vars db st2)"
  by (simp add: sim_def after_get_domains_sem)
     (simp add: after_get_domains_def record_call_def Let_def)

text \<open>
  C7 as stated fails: the builders of the example rule are functions of their
  arguments and leave the backend alone, and the second \<^verbatim>\<open>generate\<close> with the same
  variables returns another list than the first. The Rule keeps its parameter map from
  one call to the next, and the map is passed to the builders.
\<close>

theorem generate_repeated_counterexample:
  "backend (snd (generate (fst example_rule) None (snd example_rule)))
     = backend (snd example_rule)
   \<and> fst (generate (fst example_rule) None (snd example_rule))
     \<noteq> fst (generate (fst example_rule) None
             (snd (generate (fst example_rule) None (snd example_rule))))"
  by (simp add: ex_defs run_defs Let_def)

text \<open>
  C7, amended: two calls of \<^verbatim>\<open>generate\<close> with the same variables, in states of the Rule
  in which its parameter map has the same value and the backend is in the same state,
  return the same list (or the same error), make the same calls with the same arguments
  and leave the same parameter map and backend.
\<close>

theorem generate_deterministic:
  assumes "wf self st1" and "wf self st2"
    and "view st1 (self_parameters self) = view st2 (self_parameters self)"
    and "backend st1 = backend st2"
  shows "fst (generate self vars st1) = fst (generate self vars st2)
         \<and> new_calls st1 (snd (generate self vars st1))
           = new_calls st2 (snd (generate self vars st2))
         \<and> view (snd (generate self vars st1)) (self_parameters self)
           = view (snd (generate self vars st2)) (self_parameters self)
         \<and> backend (snd (generate self vars st1)) = backend (snd (generate self vars st2))"
proof -
  have s: "sim self st1 st2" using assms by (simp add: sim_def)
  show ?thesis
  proof (cases "self_domain_builder self")
    case None
    then show ?thesis using assms by (simp add: generate_unfold)
  next
    case (Some db)
    note s1 = sim_after_get_domains [OF s, of vars db]
    note run = sim_generate_domains [OF s1, of "resolve_variables self vars" _ "[]"]
    have A: "fst (generate self vars st1) = fst (generate self vars st2)"
      using Some run assms(4) by (simp add: generate_unfold split: sum.splits)
    have B: "new_calls st1 (snd (generate self vars st1))
               = new_calls st2 (snd (generate self vars st2))"
      using Some run assms(4)
      by (simp add: new_calls_generate new_calls_after_get_domains split: sum.splits)
    have C: "sim self (snd (generate self vars st1)) (snd (generate self vars st2))"
      using Some run s1 assms(4) by (simp add: generate_unfold split: sum.splits)
    show ?thesis using A B C by (simp add: sim_def)
  qed
qed

theorem generate_deterministic_witness:
  "next_addr (snd example_rule)
     \<noteq> next_addr (snd (parameters (fst example_rule) (snd example_rule)))
   \<and> fst (generate (fst example_rule) None (snd example_rule))
       = fst (generate (fst example_rule) None
               (snd (parameters (fst example_rule) (snd example_rule))))"
proof -
  let ?r = "fst example_rule"
  let ?st1 = "snd example_rule"
  let ?st2 = "snd (parameters ?r ?st1)"
  have w1: "wf ?r ?st1" by (rule example_rule_wf)
  have w2: "wf ?r ?st2" by (rule parameters_wf [OF w1])
  have v: "view ?st1 (self_parameters ?r) = view ?st2 (self_parameters ?r)"
    by (rule parameters_self_view [OF w1, symmetric])
  have b: "backend ?st1 = backend ?st2" by (simp add: parameters_frame(2))
  have n: "next_addr ?st1 \<noteq> next_addr ?st2"
    using parameters_frame(3) [of ?st1 ?r] by simp
  show ?thesis using n generate_deterministic [OF w1 w2 v b, of None] by simp
qed

end
